theory Spec2Isabelle
  imports Complex_Main "HOL-Library.Sublist"
begin

section \<open>SkDiffContext: the skpdiff comparison context\<close>

text \<open>
  A shallow embedding of \<^verbatim>\<open>tools/skpdiff/SkDiffContext.cpp\<close>. An \<^verbatim>\<open>SkString\<close> is a
  \<^typ>\<open>string\<close> (a list of bytes), a \<^verbatim>\<open>size_t\<close> length or index is a \<^typ>\<open>nat\<close>,
  a C \<^verbatim>\<open>int\<close> is an \<^typ>\<open>int\<close> and a \<^verbatim>\<open>double\<close> score is a \<^typ>\<open>real\<close>
  (scores are only stored, compared for equality and printed).

  \<^verbatim>\<open>SkASSERT\<close> and \<^verbatim>\<open>SkAssertResult\<close> abort the process in a build with
  \<^verbatim>\<open>SK_DEBUG\<close> and check nothing otherwise. Every function that contains one takes the
  build flag \<open>sk_debug\<close> and returns \<open>Inl AssertionFailed\<close> where the debug build aborts.
\<close>

subsection \<open>Errors\<close>

datatype error =
    AssertionFailed
  | ArrayIndexOutOfBounds
  | ReadBeforeBuffer

subsection \<open>\<^verbatim>\<open>get_common_prefix\<close>\<close>

text \<open>
  The \<^verbatim>\<open>for\<close> loop of \<^verbatim>\<open>get_common_prefix\<close>, started at index \<open>x\<close>: \<open>Some\<close> of
  the first \<open>x\<close> bytes of \<open>a\<close> at the first mismatch (\<^verbatim>\<open>result.set(a.c_str(), x)\<close>),
  \<open>None\<close> when the loop runs to \<open>maxPrefixLength\<close> without one.
\<close>

function prefix_loop :: "string \<Rightarrow> string \<Rightarrow> nat \<Rightarrow> nat \<Rightarrow> string option" where
  "prefix_loop a b maxPrefixLength x =
     (if x < maxPrefixLength then
        (if a ! x \<noteq> b ! x then Some (take x a)
         else prefix_loop a b maxPrefixLength (Suc x))
      else None)"
  by pat_completeness auto
termination
  by (relation "measure (\<lambda>(a, b, maxPrefixLength, x). maxPrefixLength - x)") auto

declare prefix_loop.simps [simp del]

definition get_common_prefix :: "bool \<Rightarrow> string \<Rightarrow> string \<Rightarrow> error + string" where
  "get_common_prefix sk_debug a b =
     (let maxPrefixLength = min (length a) (length b) in
      if sk_debug \<and> \<not> maxPrefixLength > 0 then Inl AssertionFailed
      else (case prefix_loop a b maxPrefixLength 0 of
              Some result \<Rightarrow> Inr result
            | None \<Rightarrow> if length a > length b then Inr b else Inr a))"

subsection \<open>Data model\<close>

type_synonym SkIPoint = "int \<times> int"

record DiffData =
  fDiffName :: string
  fResult :: real
  fPointsOfInterest :: "SkIPoint list"

text \<open>
  The store \<^verbatim>\<open>fRecords\<close> is a singly linked list of \<^verbatim>\<open>DiffRecord\<close>s. A pointer to
  a record is modelled by the chain it points to: the list whose head is that record
  and whose tail is its \<^verbatim>\<open>fNext\<close> chain (\<^verbatim>\<open>NULL\<close> is \<open>[]\<close>). \<^verbatim>\<open>fNext\<close> is
  assigned once, before the record is linked, so a chain never changes after it is read.
\<close>

record DiffRecord =
  fCommonName :: string
  fDifferencePath :: string
  fBaselinePath :: string
  fTestPath :: string
  fDiffs :: "DiffData list"

text \<open>
  The \<^verbatim>\<open>SkImageDiffer\<close> interface (declared outside this file) is a parameter: a differ
  is given by the answers of its methods. \<open>'bm\<close> is the type of a decoded
  \<^verbatim>\<open>SkBitmap\<close>. \<^verbatim>\<open>getPointsOfInterestCount(id)\<close> and \<^verbatim>\<open>getPointsOfInterest(id)\<close> are
  one list: the array and its length.
\<close>

record 'bm SkImageDiffer =
  getName :: string
  enablePOIAlphaMask :: bool
  queueDiff :: "'bm \<Rightarrow> 'bm \<Rightarrow> int"
  getResult :: "int \<Rightarrow> real"
  getPointsOfInterest :: "int \<Rightarrow> SkIPoint list"
  getPointsOfInterestAlphaMask :: "int \<Rightarrow> 'bm"

record 'bm SkDiffContext =
  fRecords :: "DiffRecord list"
  fDiffers :: "'bm SkImageDiffer list"
  fDifferenceDir :: string
  fThreadCount :: int

text \<open>
  The functions of other files that \<^verbatim>\<open>SkDiffContext.cpp\<close> calls are parameters too:
  the image decoder and encoder, \<^verbatim>\<open>SkOSPath\<close>, the file system helpers of
  \<^verbatim>\<open>skpdiff_util.h\<close>, the constant \<^verbatim>\<open>SkImageDiffer::RESULT_CORRECT\<close> and the number
  formatting of \<^verbatim>\<open>SkWStream\<close> and \<^verbatim>\<open>SkString::printf\<close>. A function that reports
  failure by returning \<^verbatim>\<open>false\<close> returns \<open>None\<close>.
\<close>

record 'bm env =
  DecodeFile :: "string \<Rightarrow> 'bm option"
  SkBasename :: "string \<Rightarrow> string"
  SkPathJoin :: "string \<Rightarrow> string \<Rightarrow> string"
  copyTo :: "'bm \<Rightarrow> 'bm"
  RESULT_CORRECT :: real
  sk_mkdir :: "string \<Rightarrow> bool"
  get_directory :: "string \<Rightarrow> string list option"
  glob_files :: "string \<Rightarrow> string list option"
  sk_exists :: "string \<Rightarrow> bool"
  sk_isdir :: "string \<Rightarrow> bool"
  get_absolute_path :: "string \<Rightarrow> string"
  writeScalarAsText :: "real \<Rightarrow> string"
  writeDecAsText :: "int \<Rightarrow> string"
  printf_f :: "real \<Rightarrow> string"

text \<open>
  What a call does outside the context is recorded as a list of events, in program
  order: the log lines, every method called on a differ (with the differ's index in
  \<^verbatim>\<open>fDiffers\<close> and the value it answered or the handle it was given), every file
  encoded and every runnable handed to the thread pool.
\<close>

datatype differ_call =
    EnablePOIAlphaMask bool
  | QueueDiff int
  | GetName
  | GetResult int
  | GetPointsOfInterestCount int
  | GetPointsOfInterest int
  | GetPointsOfInterestAlphaMask int
  | DeleteDiff int

datatype 'bm event =
    SkDebugf string
  | DifferCall nat differ_call
  | EncodeFile string 'bm
  | ThreadPoolAdd string string

definition dquote :: string where
  "dquote = [CHR 0x22]"

definition newline :: string where
  "newline = [CHR 0x0A]"

subsection \<open>Configuration\<close>

definition SkDiffContext_new :: "int \<Rightarrow> 'bm SkDiffContext" where
  "SkDiffContext_new kThreadPerCore =
     \<lparr>fRecords = [], fDiffers = [], fDifferenceDir = [], fThreadCount = kThreadPerCore\<rparr>"

definition setDifferenceDir :: "'bm env \<Rightarrow> 'bm SkDiffContext \<Rightarrow> string \<Rightarrow> 'bm SkDiffContext" where
  "setDifferenceDir env this path =
     (if path \<noteq> [] \<and> sk_mkdir env path then this\<lparr>fDifferenceDir := path\<rparr> else this)"

definition setDiffers ::
  "'bm SkDiffContext \<Rightarrow> 'bm SkImageDiffer list \<Rightarrow> 'bm SkDiffContext" where
  "setDiffers this differs = this\<lparr>fDiffers := differs\<rparr>"

subsection \<open>\<^verbatim>\<open>addDiff\<close>\<close>

record diff_loop_state =
  alphaMaskPending :: bool
  alphaMaskCreated :: bool
  newRecord :: DiffRecord

text \<open>One iteration of the loop over the differs (the body of "Perform each diff").\<close>

definition differ_step ::
  "'bm env \<Rightarrow> string \<Rightarrow> 'bm \<Rightarrow> 'bm \<Rightarrow> nat \<Rightarrow> 'bm SkImageDiffer \<Rightarrow> diff_loop_state
   \<Rightarrow> diff_loop_state \<times> 'bm event list" where
  "differ_step env differenceDir baselineBitmap testBitmap differIndex differ s =
     (let ask = (\<not> alphaMaskCreated s \<and> differenceDir \<noteq> []);
          pending1 = (if ask then enablePOIAlphaMask differ else alphaMaskPending s);
          evs1 = (if ask
                  then [DifferCall differIndex (EnablePOIAlphaMask (enablePOIAlphaMask differ))]
                  else []);
          diffID = queueDiff differ baselineBitmap testBitmap;
          evs2 = evs1 @ [DifferCall differIndex (QueueDiff diffID)]
      in if diffID \<ge> 0 then
           (let diffData = \<lparr>fDiffName = getName differ,
                             fResult = getResult differ diffID,
                             fPointsOfInterest = getPointsOfInterest differ diffID\<rparr>;
                record1 = (newRecord s)\<lparr>fDiffs := fDiffs (newRecord s) @ [diffData]\<rparr>;
                evs3 = evs2 @ [DifferCall differIndex GetName,
                               DifferCall differIndex (GetResult diffID),
                               DifferCall differIndex (GetPointsOfInterestCount diffID),
                               DifferCall differIndex (GetPointsOfInterest diffID)];
                encode = (pending1 \<and> RESULT_CORRECT env \<noteq> fResult diffData
                            \<and> fDifferencePath record1 = []);
                differencePath = SkPathJoin env differenceDir (fCommonName record1);
                record2 = (if encode then record1\<lparr>fDifferencePath := differencePath\<rparr>
                           else record1);
                evs4 = evs3 @
                  (if encode
                   then [DifferCall differIndex (GetPointsOfInterestAlphaMask diffID),
                         EncodeFile differencePath
                           (copyTo env (getPointsOfInterestAlphaMask differ diffID))]
                   else [])
            in (\<lparr>alphaMaskPending = (if pending1 then False else pending1),
                 alphaMaskCreated = (if pending1 then True else alphaMaskCreated s),
                 newRecord = record2\<rparr>,
                evs4 @ [DifferCall differIndex (DeleteDiff diffID)]))
         else (s\<lparr>alphaMaskPending := pending1\<rparr>, evs2))"

text \<open>
  The loop \<^verbatim>\<open>for (differIndex = 0; differIndex < fDifferCount; differIndex++)\<close>, from
  \<open>differIndex\<close> on: the list is what is left of \<^verbatim>\<open>fDiffers\<close> from that index.
\<close>

fun differ_loop ::
  "'bm env \<Rightarrow> string \<Rightarrow> 'bm \<Rightarrow> 'bm \<Rightarrow> nat \<Rightarrow> 'bm SkImageDiffer list \<Rightarrow> diff_loop_state
   \<Rightarrow> diff_loop_state \<times> 'bm event list" where
  "differ_loop env differenceDir baselineBitmap testBitmap differIndex [] s = (s, [])"
| "differ_loop env differenceDir baselineBitmap testBitmap differIndex (differ # rest) s =
     (case differ_step env differenceDir baselineBitmap testBitmap differIndex differ s of
        (s1, evs1) \<Rightarrow>
          (case differ_loop env differenceDir baselineBitmap testBitmap (Suc differIndex) rest s1 of
             (s2, evs2) \<Rightarrow> (s2, evs1 @ evs2)))"

definition failed_to_load :: "string \<Rightarrow> string" where
  "failed_to_load path = ''Failed to load bitmap '' @ dquote @ path @ dquote @ newline"

text \<open>
  \<^verbatim>\<open>addDiff\<close> from "Setup a record for this diff" to its end, for two decoded bitmaps.
  \<open>next\<close> is the value of \<^verbatim>\<open>fRecords\<close> that \<^verbatim>\<open>newRecord->fNext = fRecords\<close> read;
  \<^verbatim>\<open>fRecords = newRecord\<close> then makes the new record the head, in front of that chain.
  The record is filled through the pointer \<^verbatim>\<open>newRecord\<close> after it is linked; the
  result holds the record as it is when \<^verbatim>\<open>addDiff\<close> returns.
\<close>

definition link_record ::
  "bool \<Rightarrow> 'bm env \<Rightarrow> 'bm SkDiffContext \<Rightarrow> string \<Rightarrow> string \<Rightarrow> 'bm \<Rightarrow> 'bm \<Rightarrow> DiffRecord list
   \<Rightarrow> error + 'bm SkDiffContext \<times> 'bm event list" where
  "link_record sk_debug env this baselinePath testPath baselineBitmap testBitmap next =
     (let record0 = \<lparr>fCommonName = [], fDifferencePath = [],
                      fBaselinePath = baselinePath, fTestPath = testPath, fDiffs = []\<rparr>
      in case get_common_prefix sk_debug (SkBasename env baselinePath) (SkBasename env testPath) of
           Inl e \<Rightarrow> Inl e
         | Inr commonName \<Rightarrow>
             (case differ_loop env (fDifferenceDir this) baselineBitmap testBitmap 0 (fDiffers this)
                     \<lparr>alphaMaskPending = False, alphaMaskCreated = False,
                      newRecord = record0\<lparr>fCommonName := commonName\<rparr>\<rparr> of
                (s, evs) \<Rightarrow> Inr (this\<lparr>fRecords := newRecord s # next\<rparr>, evs)))"

definition addDiff ::
  "bool \<Rightarrow> 'bm env \<Rightarrow> 'bm SkDiffContext \<Rightarrow> string \<Rightarrow> string
   \<Rightarrow> error + 'bm SkDiffContext \<times> 'bm event list" where
  "addDiff sk_debug env this baselinePath testPath =
     (case DecodeFile env baselinePath of
        None \<Rightarrow> Inr (this, [SkDebugf (failed_to_load baselinePath)])
      | Some baselineBitmap \<Rightarrow>
          (case DecodeFile env testPath of
             None \<Rightarrow> Inr (this, [SkDebugf (failed_to_load testPath)])
           | Some testBitmap \<Rightarrow>
               link_record sk_debug env this baselinePath testPath baselineBitmap testBitmap
                 (fRecords this)))"

subsection \<open>The thread pool\<close>

text \<open>
  An \<^verbatim>\<open>SkThreadedDiff\<close> runs \<^verbatim>\<open>addDiff\<close> on its pair. \<^verbatim>\<open>addDiff\<close> takes no lock, so
  between two of its statements another worker may run. The only data the workers
  share for writing is \<^verbatim>\<open>fRecords\<close>, which \<^verbatim>\<open>addDiff\<close> reads in
  \<^verbatim>\<open>newRecord->fNext = fRecords\<close> and writes in the next statement,
  \<^verbatim>\<open>fRecords = newRecord\<close>. A runnable is therefore run in two steps, split between
  these two statements: \<open>Queued\<close> before it starts, \<open>Loaded\<close> when both images are
  decoded and \<^verbatim>\<open>fNext\<close> holds the head it read, \<open>Finished\<close> when \<^verbatim>\<open>addDiff\<close> has
  returned.
\<close>

datatype 'bm runnable =
    Queued string string
  | Loaded string string 'bm 'bm "DiffRecord list"
  | Finished

record 'bm pool_state =
  fDiffContext :: "'bm SkDiffContext"
  runnableDiffs :: "'bm runnable list"
  events :: "'bm event list"

definition run_step ::
  "bool \<Rightarrow> 'bm env \<Rightarrow> nat \<Rightarrow> 'bm pool_state \<Rightarrow> error + 'bm pool_state" where
  "run_step sk_debug env x st =
     (if x < length (runnableDiffs st) then
        (case runnableDiffs st ! x of
           Queued baselinePath testPath \<Rightarrow>
             (case DecodeFile env baselinePath of
                None \<Rightarrow>
                  Inr (st\<lparr>runnableDiffs := (runnableDiffs st)[x := Finished],
                          events := events st @ [SkDebugf (failed_to_load baselinePath)]\<rparr>)
              | Some baselineBitmap \<Rightarrow>
                  (case DecodeFile env testPath of
                     None \<Rightarrow>
                       Inr (st\<lparr>runnableDiffs := (runnableDiffs st)[x := Finished],
                               events := events st @ [SkDebugf (failed_to_load testPath)]\<rparr>)
                   | Some testBitmap \<Rightarrow>
                       Inr (st\<lparr>runnableDiffs := (runnableDiffs st)
                               [x := Loaded baselinePath testPath baselineBitmap testBitmap
                                       (fRecords (fDiffContext st))]\<rparr>)))
         | Loaded baselinePath testPath baselineBitmap testBitmap next \<Rightarrow>
             (case link_record sk_debug env (fDiffContext st) baselinePath testPath
                     baselineBitmap testBitmap next of
                Inl e \<Rightarrow> Inl e
              | Inr (this, evs) \<Rightarrow>
                  Inr (st\<lparr>fDiffContext := this,
                          runnableDiffs := (runnableDiffs st)[x := Finished],
                          events := events st @ evs\<rparr>))
         | Finished \<Rightarrow> Inr st)
      else Inr st)"

text \<open>A schedule names, step by step, the runnable whose worker moves next.\<close>

fun run_schedule ::
  "bool \<Rightarrow> 'bm env \<Rightarrow> nat list \<Rightarrow> 'bm pool_state \<Rightarrow> error + 'bm pool_state" where
  "run_schedule sk_debug env [] st = Inr st"
| "run_schedule sk_debug env (x # schedule) st =
     (case run_step sk_debug env x st of
        Inl e \<Rightarrow> Inl e
      | Inr st1 \<Rightarrow> run_schedule sk_debug env schedule st1)"

definition in_queue_order :: "nat \<Rightarrow> nat list" where
  "in_queue_order n = concat (map (\<lambda>x. [x, x]) [0..<n])"

text \<open>
  Modelled from the spec: \<^verbatim>\<open>SkThreadPool\<close> (constructor, \<^verbatim>\<open>add\<close>, \<^verbatim>\<open>wait\<close>), which is
  not in this file. It is "a bounded worker pool of parallel execution threads" whose
  width is the thread count, and \<^verbatim>\<open>wait\<close> is "a wait-for-all barrier". A pool of width 1
  runs the runnables one after the other, in the order they were added. A wider pool
  follows the schedule it is given; \<^verbatim>\<open>wait\<close> returns when every runnable is finished, so
  what the schedule leaves unfinished is run to its end.
\<close>

definition threadPool_wait ::
  "bool \<Rightarrow> 'bm env \<Rightarrow> int \<Rightarrow> nat list \<Rightarrow> 'bm pool_state \<Rightarrow> error + 'bm pool_state" where
  "threadPool_wait sk_debug env threadCount schedule st =
     run_schedule sk_debug env
       ((if threadCount = 1 then [] else schedule) @ in_queue_order (length (runnableDiffs st)))
       st"

subsection \<open>\<^verbatim>\<open>diffDirectories\<close> and \<^verbatim>\<open>diffPatterns\<close>\<close>

definition no_corresponding :: "string \<Rightarrow> string" where
  "no_corresponding baselineFile =
     ''Baseline file '' @ dquote @ baselineFile @ dquote
       @ '' has no corresponding test file'' @ newline"

text \<open>
  The loop of \<^verbatim>\<open>diffDirectories\<close> over \<^verbatim>\<open>baselineEntries\<close>: the runnables it sets up and
  adds to the pool, in order, and the events of the loop. The events of a batch call
  list the events of this loop first and the events of the runnables after them; a
  worker may in fact run while the loop is still adding, so the order between the
  log lines of the loop and the events of the runnables is not modelled. What the
  runnables do to the store does not depend on it.
\<close>

fun directory_loop ::
  "'bm env \<Rightarrow> string \<Rightarrow> string \<Rightarrow> string list \<Rightarrow> 'bm runnable list \<times> 'bm event list" where
  "directory_loop env baselinePath testPath [] = ([], [])"
| "directory_loop env baselinePath testPath (baseFilename # entries) =
     (let baselineFile = SkPathJoin env baselinePath baseFilename;
          testFile = SkPathJoin env testPath baseFilename
      in case directory_loop env baselinePath testPath entries of
           (added, evs) \<Rightarrow>
             if sk_exists env testFile \<and> \<not> sk_isdir env testFile
             then (Queued baselineFile testFile # added,
                   ThreadPoolAdd baselineFile testFile # evs)
             else (added, SkDebugf (no_corresponding baselineFile) # evs))"

definition diffDirectories ::
  "bool \<Rightarrow> 'bm env \<Rightarrow> nat list \<Rightarrow> 'bm SkDiffContext \<Rightarrow> string \<Rightarrow> string
   \<Rightarrow> error + 'bm SkDiffContext \<times> 'bm event list" where
  "diffDirectories sk_debug env schedule this baselinePath testPath =
     (case get_directory env baselinePath of
        None \<Rightarrow>
          Inr (this, [SkDebugf (''Unable to open path '' @ dquote @ baselinePath @ dquote @ newline)])
      | Some baselineEntries \<Rightarrow>
          (case directory_loop env baselinePath testPath baselineEntries of
             (added, evs) \<Rightarrow>
               (case threadPool_wait sk_debug env (fThreadCount this) schedule
                       \<lparr>fDiffContext = this, runnableDiffs = added, events = evs\<rparr> of
                  Inl e \<Rightarrow> Inl e
                | Inr st \<Rightarrow> Inr (fDiffContext st, events st))))"

definition unable_to_get_pattern :: "string \<Rightarrow> string" where
  "unable_to_get_pattern pattern =
     ''Unable to get pattern '' @ dquote @ pattern @ dquote @ newline"

definition diffPatterns ::
  "bool \<Rightarrow> 'bm env \<Rightarrow> nat list \<Rightarrow> 'bm SkDiffContext \<Rightarrow> string \<Rightarrow> string
   \<Rightarrow> error + 'bm SkDiffContext \<times> 'bm event list" where
  "diffPatterns sk_debug env schedule this baselinePattern testPattern =
     (case glob_files env baselinePattern of
        None \<Rightarrow> Inr (this, [SkDebugf (unable_to_get_pattern baselinePattern)])
      | Some baselineEntries \<Rightarrow>
          (case glob_files env testPattern of
             None \<Rightarrow> Inr (this, [SkDebugf (unable_to_get_pattern testPattern)])
           | Some testEntries \<Rightarrow>
               if length baselineEntries \<noteq> length testEntries
               then Inr (this,
                 [SkDebugf (''Baseline and test patterns do not yield corresponding number of files''
                            @ newline)])
               else
                 (case threadPool_wait sk_debug env (fThreadCount this) schedule
                         \<lparr>fDiffContext = this,
                          runnableDiffs = map (\<lambda>(b, t). Queued b t) (zip baselineEntries testEntries),
                          events = map (\<lambda>(b, t). ThreadPoolAdd b t) (zip baselineEntries testEntries)\<rparr> of
                    Inl e \<Rightarrow> Inl e
                  | Inr st \<Rightarrow> Inr (fDiffContext st, events st))))"

subsection \<open>\<^verbatim>\<open>outputRecords\<close>\<close>

text \<open>
  An \<^verbatim>\<open>SkWStream\<close> is the text written to it so far; \<^verbatim>\<open>writeText\<close> appends. Loop
  counters that start at 0 and count up are natural numbers.
\<close>

definition kMaxPOI :: nat where
  "kMaxPOI = 100"

function poi_loop :: "'bm env \<Rightarrow> SkIPoint list \<Rightarrow> nat \<Rightarrow> string \<Rightarrow> string" where
  "poi_loop env pointsOfInterest poiIndex stream =
     (if poiIndex < length pointsOfInterest \<and> poiIndex < kMaxPOI then
        (let poi = pointsOfInterest ! poiIndex
         in poi_loop env pointsOfInterest (poiIndex + 1)
              (stream @ ''                        ['' @ writeDecAsText env (fst poi)
                 @ '','' @ writeDecAsText env (snd poi) @ '']''
                 @ (if poiIndex + 1 < length pointsOfInterest \<and> poiIndex + 1 < kMaxPOI
                    then '','' else [])
                 @ newline))
      else stream)"
  by pat_completeness auto
termination
  by (relation "measure (\<lambda>(env, pointsOfInterest, poiIndex, stream).
        length pointsOfInterest - poiIndex)") auto

declare poi_loop.simps [simp del]

function diffs_loop :: "'bm env \<Rightarrow> DiffData list \<Rightarrow> nat \<Rightarrow> string \<Rightarrow> string" where
  "diffs_loop env recordDiffs diffIndex stream =
     (if diffIndex < length recordDiffs then
        (let data = recordDiffs ! diffIndex;
             stream1 = stream @ ''                {'' @ newline
               @ ''                    '' @ dquote @ ''differName'' @ dquote @ '': '' @ dquote
               @ fDiffName data @ dquote @ '','' @ newline
               @ ''                    '' @ dquote @ ''result'' @ dquote @ '': ''
               @ writeScalarAsText env (fResult data) @ '','' @ newline
               @ ''                    '' @ dquote @ ''pointsOfInterest'' @ dquote @ '': ['' @ newline;
             stream2 = poi_loop env (fPointsOfInterest data) 0 stream1
         in diffs_loop env recordDiffs (diffIndex + 1)
              (stream2 @ ''                    ]'' @ newline
                 @ ''                }''
                 @ (if diffIndex + 1 < length recordDiffs then '','' else [])
                 @ ''                '' @ newline))
      else stream)"
  by pat_completeness auto
termination
  by (relation "measure (\<lambda>(env, recordDiffs, diffIndex, stream). length recordDiffs - diffIndex)") auto

declare diffs_loop.simps [simp del]

text \<open>
  The loop \<^verbatim>\<open>while (NULL != currentRecord)\<close>: \<open>currentRecord\<close> is the head of the chain
  and \<open>next\<close> is \<^verbatim>\<open>currentRecord->fNext\<close>.
\<close>

fun records_loop :: "'bm env \<Rightarrow> DiffRecord list \<Rightarrow> string \<Rightarrow> string" where
  "records_loop env [] stream = stream"
| "records_loop env (currentRecord # next) stream =
     (let differenceAbsPath = get_absolute_path env (fDifferencePath currentRecord);
          baselineAbsPath = get_absolute_path env (fBaselinePath currentRecord);
          testAbsPath = get_absolute_path env (fTestPath currentRecord);
          stream1 = stream @ ''        {'' @ newline
            @ ''            '' @ dquote @ ''commonName'' @ dquote @ '': '' @ dquote
            @ fCommonName currentRecord @ dquote @ '','' @ newline
            @ ''            '' @ dquote @ ''differencePath'' @ dquote @ '': '' @ dquote
            @ differenceAbsPath @ dquote @ '','' @ newline
            @ ''            '' @ dquote @ ''baselinePath'' @ dquote @ '': '' @ dquote
            @ baselineAbsPath @ dquote @ '','' @ newline
            @ ''            '' @ dquote @ ''testPath'' @ dquote @ '': '' @ dquote
            @ testAbsPath @ dquote @ '','' @ newline
            @ ''            '' @ dquote @ ''diffs'' @ dquote @ '': ['' @ newline;
          stream2 = diffs_loop env (fDiffs currentRecord) 0 stream1
      in records_loop env next
           (stream2 @ ''            ]'' @ newline
              @ ''        }''
              @ (if next \<noteq> [] then '','' else [])
              @ newline))"

definition outputRecords ::
  "'bm env \<Rightarrow> 'bm SkDiffContext \<Rightarrow> string \<Rightarrow> bool \<Rightarrow> 'bm SkDiffContext \<times> string" where
  "outputRecords env this stream useJSONP =
     (let stream1 = stream
            @ (if useJSONP then ''var SkPDiffRecords = {'' @ newline else ''{'' @ newline)
            @ ''    '' @ dquote @ ''records'' @ dquote @ '': ['' @ newline;
          stream2 = records_loop env (fRecords this) stream1
      in (this,
          stream2 @ ''    ]'' @ newline
            @ (if useJSONP then ''};'' @ newline else ''}'' @ newline)))"

text \<open>
  What the specification says of the points of interest of one \<^verbatim>\<open>DiffData\<close>: the
  first \<open>n\<close> of them are emitted, one coordinate entry \<open>[x,y]\<close> each, with a comma
  after every entry but the last of the \<open>n\<close>. \<open>spec_poi_entry\<close> is entry \<open>i\<close>.
\<close>

definition spec_poi_entry :: "'bm env \<Rightarrow> SkIPoint list \<Rightarrow> nat \<Rightarrow> nat \<Rightarrow> string" where
  "spec_poi_entry env pointsOfInterest n i =
     ''                        ['' @ writeDecAsText env (fst (pointsOfInterest ! i))
       @ '','' @ writeDecAsText env (snd (pointsOfInterest ! i)) @ '']''
       @ (if i + 1 < n then '','' else []) @ newline"

definition spec_poi_entries :: "'bm env \<Rightarrow> SkIPoint list \<Rightarrow> nat \<Rightarrow> string list" where
  "spec_poi_entries env pointsOfInterest n =
     map (spec_poi_entry env pointsOfInterest n) [0..<n]"

text \<open>
  The specification's JSON object for one \<^verbatim>\<open>DiffData\<close>: its name, its result and
  its points of interest, "truncated to first 100".
\<close>

definition spec_diff_data :: "'bm env \<Rightarrow> DiffData \<Rightarrow> string" where
  "spec_diff_data env data =
     ''                {'' @ newline
       @ ''                    '' @ dquote @ ''differName'' @ dquote @ '': '' @ dquote
       @ fDiffName data @ dquote @ '','' @ newline
       @ ''                    '' @ dquote @ ''result'' @ dquote @ '': ''
       @ writeScalarAsText env (fResult data) @ '','' @ newline
       @ ''                    '' @ dquote @ ''pointsOfInterest'' @ dquote @ '': ['' @ newline
       @ concat (spec_poi_entries env (fPointsOfInterest data)
                   (min (length (fPointsOfInterest data)) 100))
       @ ''                    ]'' @ newline
       @ ''                }''"

text \<open>
  The specification's report: \<open>"diffs"\<close> holds the objects of the record's
  \<^verbatim>\<open>DiffData\<close> in order, \<open>"records"\<close> holds the objects of the records of the store
  in order, head first, each list with a comma after every object but the last ("no
  trailing commas"), and the whole is wrapped as \<open>var SkPDiffRecords = {...};\<close> for
  JSONP.
\<close>

definition spec_diff_entry :: "'bm env \<Rightarrow> DiffData list \<Rightarrow> nat \<Rightarrow> string" where
  "spec_diff_entry env recordDiffs i =
     spec_diff_data env (recordDiffs ! i)
       @ (if i + 1 < length recordDiffs then '','' else []) @ ''                '' @ newline"

definition spec_diffs :: "'bm env \<Rightarrow> DiffData list \<Rightarrow> string" where
  "spec_diffs env recordDiffs =
     concat (map (spec_diff_entry env recordDiffs) [0..<length recordDiffs])"

definition spec_record :: "'bm env \<Rightarrow> DiffRecord \<Rightarrow> string" where
  "spec_record env r =
     ''        {'' @ newline
       @ ''            '' @ dquote @ ''commonName'' @ dquote @ '': '' @ dquote
       @ fCommonName r @ dquote @ '','' @ newline
       @ ''            '' @ dquote @ ''differencePath'' @ dquote @ '': '' @ dquote
       @ get_absolute_path env (fDifferencePath r) @ dquote @ '','' @ newline
       @ ''            '' @ dquote @ ''baselinePath'' @ dquote @ '': '' @ dquote
       @ get_absolute_path env (fBaselinePath r) @ dquote @ '','' @ newline
       @ ''            '' @ dquote @ ''testPath'' @ dquote @ '': '' @ dquote
       @ get_absolute_path env (fTestPath r) @ dquote @ '','' @ newline
       @ ''            '' @ dquote @ ''diffs'' @ dquote @ '': ['' @ newline
       @ spec_diffs env (fDiffs r)
       @ ''            ]'' @ newline
       @ ''        }''"

definition spec_record_entry :: "'bm env \<Rightarrow> DiffRecord list \<Rightarrow> nat \<Rightarrow> string" where
  "spec_record_entry env records i =
     spec_record env (records ! i) @ (if i + 1 < length records then '','' else []) @ newline"

definition spec_records :: "'bm env \<Rightarrow> DiffRecord list \<Rightarrow> string" where
  "spec_records env records =
     concat (map (spec_record_entry env records) [0..<length records])"

definition spec_json :: "'bm env \<Rightarrow> DiffRecord list \<Rightarrow> bool \<Rightarrow> string" where
  "spec_json env records useJSONP =
     (if useJSONP then ''var SkPDiffRecords = {'' @ newline else ''{'' @ newline)
       @ ''    '' @ dquote @ ''records'' @ dquote @ '': ['' @ newline
       @ spec_records env records
       @ ''    ]'' @ newline
       @ (if useJSONP then ''};'' @ newline else ''}'' @ newline)"

subsection \<open>\<^verbatim>\<open>outputCsv\<close>\<close>

text \<open>
  \<^verbatim>\<open>SkTDict<int> columns\<close> is a map from differ names to column numbers:
  \<^verbatim>\<open>columns.find(name)\<close> is \<open>columns name \<noteq> None\<close> and \<^verbatim>\<open>columns.set(name, v)\<close> is
  \<open>columns(name \<mapsto> v)\<close>. The loops over \<^verbatim>\<open>fDiffs\<close> visit the entries in index
  order. The first pass writes the header and numbers the columns.
\<close>

fun csv_header_diffs ::
  "DiffData list \<Rightarrow> (string \<rightharpoonup> int) \<times> int \<times> string \<Rightarrow> (string \<rightharpoonup> int) \<times> int \<times> string" where
  "csv_header_diffs [] s = s"
| "csv_header_diffs (data # rest) (columns, cntColumns, stream) =
     (if columns (fDiffName data) = None
      then csv_header_diffs rest
             (columns(fDiffName data \<mapsto> cntColumns), cntColumns + 1,
              stream @ '', '' @ fDiffName data)
      else csv_header_diffs rest (columns, cntColumns, stream))"

fun csv_header_records ::
  "DiffRecord list \<Rightarrow> (string \<rightharpoonup> int) \<times> int \<times> string \<Rightarrow> (string \<rightharpoonup> int) \<times> int \<times> string" where
  "csv_header_records [] s = s"
| "csv_header_records (currentRecord # next) s =
     csv_header_records next (csv_header_diffs (fDiffs currentRecord) s)"

text \<open>
  \<^verbatim>\<open>double values[100]\<close> is a list of 100 cells. A write or read at an index outside
  \<open>0..99\<close> has no defined behaviour: the model stops with \<open>ArrayIndexOutOfBounds\<close>.
  The loop \<^verbatim>\<open>for (i = 0; i < cntColumns; i++) values[i] = -1\<close>:
\<close>

function csv_init_values :: "int \<Rightarrow> int \<Rightarrow> real list \<Rightarrow> error + real list" where
  "csv_init_values cntColumns i values =
     (if i < cntColumns then
        (if 0 \<le> i \<and> i < 100
         then csv_init_values cntColumns (i + 1) (values[nat i := - 1])
         else Inl ArrayIndexOutOfBounds)
      else Inr values)"
  by pat_completeness auto
termination
  by (relation "measure (\<lambda>(cntColumns, i, values). nat (cntColumns - i))") auto

declare csv_init_values.simps [simp del]

text \<open>
  The loop that stores a record's results. \<^verbatim>\<open>index\<close> starts as \<open>-1\<close> and
  \<^verbatim>\<open>columns.find(name, &index)\<close> overwrites it when the name is found.
\<close>

fun csv_row_diffs ::
  "bool \<Rightarrow> (string \<rightharpoonup> int) \<Rightarrow> int \<Rightarrow> DiffData list \<Rightarrow> real list \<Rightarrow> error + real list" where
  "csv_row_diffs sk_debug columns cntColumns [] values = Inr values"
| "csv_row_diffs sk_debug columns cntColumns (data # rest) values =
     (let found = (columns (fDiffName data) \<noteq> None);
          index = (case columns (fDiffName data) of None \<Rightarrow> - 1 | Some v \<Rightarrow> v)
      in if sk_debug \<and> \<not> found then Inl AssertionFailed
         else if sk_debug \<and> \<not> (index \<ge> 0 \<and> index < cntColumns) then Inl AssertionFailed
         else if 0 \<le> index \<and> index < 100
         then csv_row_diffs sk_debug columns cntColumns rest (values[nat index := fResult data])
         else Inl ArrayIndexOutOfBounds)"

text \<open>
  The pointer \<^verbatim>\<open>filename\<close> is its offset from \<^verbatim>\<open>fBaselinePath.c_str()\<close>. It starts at
  \<^verbatim>\<open>strlen(...) - 1\<close>, which is \<open>-1\<close> for an empty path: the loop does not run then and
  \<^verbatim>\<open>writeText(filename)\<close> reads from one byte before the string.
\<close>

function csv_filename_loop :: "string \<Rightarrow> int \<Rightarrow> int" where
  "csv_filename_loop path filename =
     (if filename > 0 \<and> path ! nat (filename - 1) \<noteq> CHR ''/''
      then csv_filename_loop path (filename - 1)
      else filename)"
  by pat_completeness auto
termination
  by (relation "measure (\<lambda>(path, filename). nat filename)") auto

declare csv_filename_loop.simps [simp del]

definition csv_filename :: "string \<Rightarrow> error + string" where
  "csv_filename path =
     (let filename = csv_filename_loop path (int (length path) - 1)
      in if filename < 0 then Inl ReadBeforeBuffer else Inr (drop (nat filename) path))"

text \<open>The loop that prints a row's values, \<^verbatim>\<open>str.printf(", %f", values[i])\<close>.\<close>

function csv_print_values ::
  "'bm env \<Rightarrow> int \<Rightarrow> int \<Rightarrow> real list \<Rightarrow> string \<Rightarrow> error + string" where
  "csv_print_values env cntColumns i values stream =
     (if i < cntColumns then
        (if 0 \<le> i \<and> i < 100
         then csv_print_values env cntColumns (i + 1) values
                (stream @ '', '' @ printf_f env (values ! nat i))
         else Inl ArrayIndexOutOfBounds)
      else Inr stream)"
  by pat_completeness auto
termination
  by (relation "measure (\<lambda>(env, cntColumns, i, values, stream). nat (cntColumns - i))") auto

declare csv_print_values.simps [simp del]

fun csv_rows ::
  "bool \<Rightarrow> 'bm env \<Rightarrow> (string \<rightharpoonup> int) \<Rightarrow> int \<Rightarrow> DiffRecord list \<Rightarrow> real list \<Rightarrow> string
   \<Rightarrow> error + string" where
  "csv_rows sk_debug env columns cntColumns [] values stream = Inr stream"
| "csv_rows sk_debug env columns cntColumns (currentRecord # next) values stream =
     (case csv_init_values cntColumns 0 values of
        Inl e \<Rightarrow> Inl e
      | Inr values1 \<Rightarrow>
     (case csv_row_diffs sk_debug columns cntColumns (fDiffs currentRecord) values1 of
        Inl e \<Rightarrow> Inl e
      | Inr values2 \<Rightarrow>
     (case csv_filename (fBaselinePath currentRecord) of
        Inl e \<Rightarrow> Inl e
      | Inr filename \<Rightarrow>
     (case csv_print_values env cntColumns 0 values2 (stream @ filename) of
        Inl e \<Rightarrow> Inl e
      | Inr stream1 \<Rightarrow>
          csv_rows sk_debug env columns cntColumns next values2 (stream1 @ newline)))))"

text \<open>
  The array is not initialised in the source. Every cell that is read was written
  by \<open>csv_init_values\<close> for the same record before, so the initial content (here 0)
  never reaches the output.
\<close>

definition outputCsv ::
  "bool \<Rightarrow> 'bm env \<Rightarrow> 'bm SkDiffContext \<Rightarrow> string \<Rightarrow> error + 'bm SkDiffContext \<times> string" where
  "outputCsv sk_debug env this stream =
     (case csv_header_records (fRecords this) (Map.empty, 0, stream @ ''key'') of
        (columns, cntColumns, stream1) \<Rightarrow>
          if sk_debug \<and> \<not> cntColumns < 100 then Inl AssertionFailed
          else (case csv_rows sk_debug env columns cntColumns (fRecords this)
                       (replicate 100 0) (stream1 @ newline) of
                  Inl e \<Rightarrow> Inl e
                | Inr stream2 \<Rightarrow> Inr (this, stream2)))"

text \<open>
  The invariant of the first pass of \<^verbatim>\<open>outputCsv\<close>: the names in \<^verbatim>\<open>columns\<close> are
  numbered \<open>0, ..., cntColumns - 1\<close>.
\<close>

definition columns_numbered :: "(string \<rightharpoonup> int) \<Rightarrow> int \<Rightarrow> bool" where
  "columns_numbered columns cntColumns =
     (finite (dom columns) \<and> cntColumns = int (card (dom columns))
      \<and> (\<forall>name index. columns name = Some index \<longrightarrow> 0 \<le> index \<and> index < cntColumns))"

subsection \<open>A small run\<close>

text \<open>
  Concrete collaborators for the examples below: a bitmap is named by the path it was
  decoded from, every file decodes except the two called \<open>missing.png\<close>, paths are
  joined with a slash and the base name is what follows the last slash.
\<close>

definition example_env :: "string env" where
  "example_env =
     \<lparr>DecodeFile = (\<lambda>path. if path = ''base/missing.png'' \<or> path = ''test/missing.png''
                            then None else Some path),
      SkBasename = (\<lambda>path. rev (takeWhile (\<lambda>c. c \<noteq> CHR ''/'') (rev path))),
      SkPathJoin = (\<lambda>dir name. dir @ ''/'' @ name),
      copyTo = (\<lambda>bitmap. bitmap),
      RESULT_CORRECT = 1,
      sk_mkdir = (\<lambda>path. True),
      get_directory = (\<lambda>path. if path = ''base'' then Some [''x.png'', ''y.png''] else None),
      glob_files = (\<lambda>pattern.
         if pattern = ''base/*.png'' then Some [''base/1.png'', ''base/2.png'', ''base/3.png'']
         else if pattern = ''test/*.png'' then Some [''test/1.png'', ''test/2.png'']
         else None),
      sk_exists = (\<lambda>path. True),
      sk_isdir = (\<lambda>path. False),
      get_absolute_path = (\<lambda>path. path),
      writeScalarAsText = (\<lambda>r. if r = 1 then ''1'' else ''0''),
      writeDecAsText = (\<lambda>i. if i = 0 then ''0'' else ''7''),
      printf_f = (\<lambda>r. if r = 1 then ''1.000000'' else if r = - 1 then ''-1.000000''
                       else ''0.500000'')\<rparr>"

definition example_differ ::
  "string \<Rightarrow> bool \<Rightarrow> int \<Rightarrow> real \<Rightarrow> SkIPoint list \<Rightarrow> string SkImageDiffer" where
  "example_differ name wantsMask diffID result pointsOfInterest =
     \<lparr>getName = name,
      enablePOIAlphaMask = wantsMask,
      queueDiff = (\<lambda>baseline test. diffID),
      getResult = (\<lambda>i. result),
      getPointsOfInterest = (\<lambda>i. pointsOfInterest),
      getPointsOfInterestAlphaMask = (\<lambda>i. ''mask'')\<rparr>"

definition example_context :: "string SkImageDiffer list \<Rightarrow> string \<Rightarrow> int \<Rightarrow> string SkDiffContext" where
  "example_context differs differenceDir threadCount =
     \<lparr>fRecords = [], fDiffers = differs, fDifferenceDir = differenceDir,
      fThreadCount = threadCount\<rparr>"

section \<open>Properties\<close>

subsection \<open>The common prefix\<close>

lemma prefix_loop_mismatch:
  "x \<le> k \<Longrightarrow> k < m \<Longrightarrow> a ! k \<noteq> b ! k \<Longrightarrow> (\<forall>i. x \<le> i \<and> i < k \<longrightarrow> a ! i = b ! i)
   \<Longrightarrow> prefix_loop a b m x = Some (take k a)"
proof (induction a b m x rule: prefix_loop.induct)
  case (1 a b m x)
  show ?case
  proof (cases "x = k")
    case True
    with "1.prems" show ?thesis
      by (simp add: prefix_loop.simps [of a b m k])
  next
    case False
    with "1.prems" have lt: "x < k" and same: "a ! x = b ! x"
      by auto
    from lt "1.prems" have "prefix_loop a b m (Suc x) = Some (take k a)"
      by (intro "1.IH") auto
    with lt same "1.prems" show ?thesis
      by (simp add: prefix_loop.simps [of a b m x])
  qed
qed

lemma prefix_loop_no_mismatch:
  "(\<forall>i. x \<le> i \<and> i < m \<longrightarrow> a ! i = b ! i) \<Longrightarrow> prefix_loop a b m x = None"
proof (induction a b m x rule: prefix_loop.induct)
  case (1 a b m x)
  show ?case
  proof (cases "x < m")
    case True
    with "1.prems" have "a ! x = b ! x" by simp
    moreover from True this "1.prems" have "prefix_loop a b m (Suc x) = None"
      by (intro "1.IH") auto
    ultimately show ?thesis using True
      by (simp add: prefix_loop.simps [of a b m x])
  next
    case False
    then show ?thesis by (simp add: prefix_loop.simps [of a b m x])
  qed
qed

lemma get_common_prefix_mismatch:
  assumes k: "k < min (length a) (length b)" and ne: "a ! k \<noteq> b ! k"
    and eq: "\<forall>i<k. a ! i = b ! i"
  shows "get_common_prefix sk_debug a b = Inr (take k a)"
proof -
  have "prefix_loop a b (min (length a) (length b)) 0 = Some (take k a)"
    using k ne eq by (intro prefix_loop_mismatch) auto
  moreover have "0 < min (length a) (length b)" using k by linarith
  ultimately show ?thesis
    by (simp add: get_common_prefix_def Let_def)
qed

text \<open>
  C1 (as amended). When the first mismatch of the two base filenames is at index \<open>k\<close>,
  the common name is the first \<open>k\<close> characters of the first one. So
  \<open>image_v1.png\<close> and \<open>image_v2.png\<close> give \<open>image_v\<close>, \<open>cat.png\<close> and
  \<open>category.png\<close> give \<open>cat\<close>, and \<open>a.png\<close> and \<open>ab.png\<close>, which differ at
  index 1, give \<open>a\<close>.
\<close>

theorem get_common_prefix_first_mismatch:
  "(\<forall>k. k < min (length a) (length b) \<and> a ! k \<noteq> b ! k \<and> (\<forall>i<k. a ! i = b ! i)
        \<longrightarrow> get_common_prefix sk_debug a b = Inr (take k a))
   \<and> get_common_prefix sk_debug ''image_v1.png'' ''image_v2.png'' = Inr ''image_v''
   \<and> get_common_prefix sk_debug ''a.png'' ''ab.png'' = Inr ''a''
   \<and> get_common_prefix sk_debug ''cat.png'' ''category.png'' = Inr ''cat''"
proof (intro conjI allI impI)
  fix k
  assume "k < min (length a) (length b) \<and> a ! k \<noteq> b ! k \<and> (\<forall>i<k. a ! i = b ! i)"
  then show "get_common_prefix sk_debug a b = Inr (take k a)"
    by (intro get_common_prefix_mismatch) auto
next
  show "get_common_prefix sk_debug ''image_v1.png'' ''image_v2.png'' = Inr ''image_v''"
    by (simp add: get_common_prefix_def prefix_loop.simps)
next
  show "get_common_prefix sk_debug ''a.png'' ''ab.png'' = Inr ''a''"
    by (simp add: get_common_prefix_def prefix_loop.simps)
next
  show "get_common_prefix sk_debug ''cat.png'' ''category.png'' = Inr ''cat''"
    by (simp add: get_common_prefix_def prefix_loop.simps)
qed

theorem get_common_prefix_first_mismatch_witness:
  "get_common_prefix True ''cat.png'' ''category.png'' = Inr (take 3 ''cat.png'')
   \<and> get_common_prefix False ''a.png'' ''ab.png'' = Inr ''a''"
proof -
  have "(3::nat) < min (length ''cat.png'') (length ''category.png'')
        \<and> ''cat.png'' ! 3 \<noteq> ''category.png'' ! 3
        \<and> (\<forall>i<3. ''cat.png'' ! i = ''category.png'' ! i)"
    by (simp add: numeral_3_eq_3 less_Suc_eq)
  with get_common_prefix_first_mismatch [of "''cat.png''" "''category.png''" True]
  have "get_common_prefix True ''cat.png'' ''category.png'' = Inr (take 3 ''cat.png'')"
    by blast
  moreover from get_common_prefix_first_mismatch [of "''a.png''" "''ab.png''" False]
  have "get_common_prefix False ''a.png'' ''ab.png'' = Inr ''a''"
    by blast
  ultimately show ?thesis by blast
qed

text \<open>
  C1 as the specification states it fails: it gives \<open>a.png\<close> for \<open>a.png\<close> and
  \<open>ab.png\<close>, but the second characters already differ.
\<close>

theorem get_common_prefix_a_ab_counterexample:
  "get_common_prefix True ''a.png'' ''ab.png'' \<noteq> Inr ''a.png''
   \<and> get_common_prefix False ''a.png'' ''ab.png'' \<noteq> Inr ''a.png''"
  by (simp add: get_common_prefix_def prefix_loop.simps)

subsection \<open>The common prefix is the longest one\<close>

lemma lcp_length_le: "length (longest_common_prefix a b) \<le> min (length a) (length b)"
  by (induction a b rule: longest_common_prefix.induct) auto

lemma lcp_nth_eq: "i < length (longest_common_prefix a b) \<Longrightarrow> a ! i = b ! i"
  by (induction a b arbitrary: i rule: longest_common_prefix.induct)
     (auto simp: nth_Cons split: nat.splits if_splits)

lemma lcp_nth_neq:
  "length (longest_common_prefix a b) < min (length a) (length b)
   \<Longrightarrow> a ! length (longest_common_prefix a b) \<noteq> b ! length (longest_common_prefix a b)"
  by (induction a b rule: longest_common_prefix.induct) auto

lemma lcp_take: "longest_common_prefix a b = take (length (longest_common_prefix a b)) a"
  by (induction a b rule: longest_common_prefix.induct) auto

lemma lcp_take2: "longest_common_prefix a b = take (length (longest_common_prefix a b)) b"
  by (induction a b rule: longest_common_prefix.induct) auto

lemma get_common_prefix_lcp:
  assumes "sk_debug \<longrightarrow> a \<noteq> [] \<and> b \<noteq> []"
  shows "get_common_prefix sk_debug a b = Inr (longest_common_prefix a b)"
proof -
  let ?m = "min (length a) (length b)"
  let ?p = "longest_common_prefix a b"
  from assms have dbg: "\<not> (sk_debug \<and> \<not> ?m > 0)" by auto
  show ?thesis
  proof (cases "length ?p < ?m")
    case True
    have "prefix_loop a b ?m 0 = Some (take (length ?p) a)"
      using True lcp_nth_neq [OF True] lcp_nth_eq [of _ a b]
      by (intro prefix_loop_mismatch) auto
    with dbg show ?thesis
      using lcp_take [of a b] by (simp add: get_common_prefix_def Let_def)
  next
    case False
    with lcp_length_le [of a b] have len: "length ?p = ?m" by linarith
    have none: "prefix_loop a b ?m 0 = None"
      using lcp_nth_eq [of _ a b] len by (intro prefix_loop_no_mismatch) auto
    have "(if length a > length b then Inr b else Inr a) = (Inr ?p :: error + string)"
      using lcp_take [of a b] lcp_take2 [of a b] len by (auto simp: min_def split: if_splits)
    with dbg none show ?thesis
      by (simp add: get_common_prefix_def Let_def del: not_less)
  qed
qed

lemma lcp_nonempty_iff:
  "a \<noteq> [] \<Longrightarrow> b \<noteq> [] \<Longrightarrow> (longest_common_prefix a b \<noteq> []) = (hd a = hd b)"
  by (cases a; cases b) auto

lemma lcp_prefix_left: "prefix a b \<Longrightarrow> longest_common_prefix a b = a"
  by (meson longest_common_prefix_max_prefix longest_common_prefix_prefix1 prefix_order.antisym
        prefix_order.refl)

lemma lcp_prefix_right: "prefix b a \<Longrightarrow> longest_common_prefix a b = b"
  by (meson longest_common_prefix_max_prefix longest_common_prefix_prefix2 prefix_order.antisym
        prefix_order.refl)

subsection \<open>The loop over the differs\<close>

lemma differ_step_events:
  "e \<in> set (snd (differ_step env dir bb tb k d s)) \<Longrightarrow>
     (\<exists>c. e = DifferCall k c) \<or> (\<exists>p b. e = EncodeFile p b)"
  by (auto simp: differ_step_def Let_def split: if_splits)

lemma differ_step_ask:
  "DifferCall j (EnablePOIAlphaMask a) \<in> set (snd (differ_step env dir bb tb k d s))
   \<Longrightarrow> \<not> alphaMaskCreated s \<and> j = k \<and> a = enablePOIAlphaMask d"
  by (auto simp: differ_step_def Let_def split: if_splits)

lemma differ_step_queue:
  "DifferCall j (QueueDiff h) \<in> set (snd (differ_step env dir bb tb k d s))
   \<Longrightarrow> h = queueDiff d bb tb"
  by (auto simp: differ_step_def Let_def split: if_splits)

lemma differ_step_created:
  "alphaMaskCreated s \<Longrightarrow> alphaMaskCreated (fst (differ_step env dir bb tb k d s))"
  by (auto simp: differ_step_def Let_def split: if_splits)

lemma differ_step_creates:
  "DifferCall k (EnablePOIAlphaMask True) \<in> set (snd (differ_step env dir bb tb k d s))
   \<Longrightarrow> queueDiff d bb tb \<ge> 0
   \<Longrightarrow> alphaMaskCreated (fst (differ_step env dir bb tb k d s))"
  by (auto simp: differ_step_def Let_def split: if_splits)

lemma differ_loop_Cons:
  "snd (differ_loop env dir bb tb k (d # ds) s) =
     snd (differ_step env dir bb tb k d s)
       @ snd (differ_loop env dir bb tb (Suc k) ds (fst (differ_step env dir bb tb k d s)))"
  "fst (differ_loop env dir bb tb k (d # ds) s) =
     fst (differ_loop env dir bb tb (Suc k) ds (fst (differ_step env dir bb tb k d s)))"
  by (simp_all split: prod.splits)

lemma differ_loop_index:
  "DifferCall i c \<in> set (snd (differ_loop env dir bb tb k ds s)) \<Longrightarrow> k \<le> i"
proof (induction ds arbitrary: k s)
  case Nil
  then show ?case by simp
next
  case (Cons d ds)
  from Cons.prems have
    "DifferCall i c \<in> set (snd (differ_step env dir bb tb k d s))
     \<or> DifferCall i c \<in> set (snd (differ_loop env dir bb tb (Suc k) ds
                                      (fst (differ_step env dir bb tb k d s))))"
    by (simp add: differ_loop_Cons del: differ_loop.simps)
  then show ?case
  proof
    assume "DifferCall i c \<in> set (snd (differ_step env dir bb tb k d s))"
    then show ?thesis using differ_step_events [of "DifferCall i c" env dir bb tb k d s] by auto
  next
    assume "DifferCall i c \<in> set (snd (differ_loop env dir bb tb (Suc k) ds
                                      (fst (differ_step env dir bb tb k d s))))"
    then have "Suc k \<le> i" by (rule Cons.IH)
    then show ?thesis by simp
  qed
qed

lemma differ_loop_created_no_ask:
  "alphaMaskCreated s
   \<Longrightarrow> DifferCall j (EnablePOIAlphaMask a) \<notin> set (snd (differ_loop env dir bb tb k ds s))"
proof (induction ds arbitrary: k s)
  case Nil
  then show ?case by simp
next
  case (Cons d ds)
  have "DifferCall j (EnablePOIAlphaMask a) \<notin> set (snd (differ_step env dir bb tb k d s))"
    using Cons.prems differ_step_ask [of j a env dir bb tb k d s] by auto
  moreover have "DifferCall j (EnablePOIAlphaMask a) \<notin>
      set (snd (differ_loop env dir bb tb (Suc k) ds (fst (differ_step env dir bb tb k d s))))"
    using Cons.prems by (intro Cons.IH differ_step_created)
  ultimately show ?case by (simp add: differ_loop_Cons del: differ_loop.simps)
qed

lemma differ_loop_mask_once:
  assumes "DifferCall i (EnablePOIAlphaMask True) \<in> set (snd (differ_loop env dir bb tb k ds s))"
    and "DifferCall i (QueueDiff h) \<in> set (snd (differ_loop env dir bb tb k ds s))"
    and "h \<ge> 0" and "i < j"
  shows "DifferCall j (EnablePOIAlphaMask a) \<notin> set (snd (differ_loop env dir bb tb k ds s))"
  using assms
proof (induction ds arbitrary: k s)
  case Nil
  then show ?case by simp
next
  case (Cons d ds)
  let ?step = "differ_step env dir bb tb k d s"
  let ?rest = "differ_loop env dir bb tb (Suc k) ds (fst ?step)"
  have not_step: "DifferCall j (EnablePOIAlphaMask a) \<notin> set (snd ?step)" if "k < j"
    using that differ_step_ask [of j a env dir bb tb k d s] by auto
  show ?case
  proof (cases "i = k")
    case True
    have in_step: "DifferCall k c \<in> set (snd ?step)"
      if "DifferCall k c \<in> set (snd (differ_loop env dir bb tb k (d # ds) s))" for c
    proof -
      from that have "DifferCall k c \<in> set (snd ?step) \<or> DifferCall k c \<in> set (snd ?rest)"
        by (simp add: differ_loop_Cons del: differ_loop.simps)
      moreover have "DifferCall k c \<notin> set (snd ?rest)"
        using differ_loop_index [of k c env dir bb tb "Suc k" ds "fst ?step"] by auto
      ultimately show ?thesis by blast
    qed
    have ask: "DifferCall k (EnablePOIAlphaMask True) \<in> set (snd ?step)"
      using Cons.prems(1) True in_step by simp
    have "DifferCall k (QueueDiff h) \<in> set (snd ?step)"
      using Cons.prems(2) True in_step by simp
    then have "h = queueDiff d bb tb" by (rule differ_step_queue)
    with ask Cons.prems(3) have "alphaMaskCreated (fst ?step)"
      by (intro differ_step_creates) auto
    then have "DifferCall j (EnablePOIAlphaMask a) \<notin> set (snd ?rest)"
      by (rule differ_loop_created_no_ask)
    moreover from True Cons.prems(4) have "k < j" by simp
    ultimately show ?thesis using not_step by (simp add: differ_loop_Cons del: differ_loop.simps)
  next
    case False
    have in_rest: "DifferCall i c \<in> set (snd ?rest)"
      if "DifferCall i c \<in> set (snd (differ_loop env dir bb tb k (d # ds) s))" for c
    proof -
      from that have "DifferCall i c \<in> set (snd ?step) \<or> DifferCall i c \<in> set (snd ?rest)"
        by (simp add: differ_loop_Cons del: differ_loop.simps)
      moreover have "DifferCall i c \<notin> set (snd ?step)"
        using False differ_step_events [of "DifferCall i c" env dir bb tb k d s] by auto
      ultimately show ?thesis by blast
    qed
    have ask: "DifferCall i (EnablePOIAlphaMask True) \<in> set (snd ?rest)"
      using Cons.prems(1) in_rest by simp
    have queue: "DifferCall i (QueueDiff h) \<in> set (snd ?rest)"
      using Cons.prems(2) in_rest by simp
    have "DifferCall j (EnablePOIAlphaMask a) \<notin> set (snd ?rest)"
      using ask queue Cons.prems(3,4) by (rule Cons.IH)
    moreover from ask have "Suc k \<le> i" by (rule differ_loop_index)
    with Cons.prems(4) have "k < j" by simp
    ultimately show ?thesis using not_step by (simp add: differ_loop_Cons del: differ_loop.simps)
  qed
qed

lemma differ_step_frame:
  "fCommonName (newRecord (fst (differ_step env dir bb tb k d s))) = fCommonName (newRecord s)"
  "fBaselinePath (newRecord (fst (differ_step env dir bb tb k d s))) = fBaselinePath (newRecord s)"
  "fTestPath (newRecord (fst (differ_step env dir bb tb k d s))) = fTestPath (newRecord s)"
  by (simp_all add: differ_step_def Let_def)

lemma differ_loop_frame:
  "fCommonName (newRecord (fst (differ_loop env dir bb tb k ds s))) = fCommonName (newRecord s)
   \<and> fBaselinePath (newRecord (fst (differ_loop env dir bb tb k ds s))) = fBaselinePath (newRecord s)
   \<and> fTestPath (newRecord (fst (differ_loop env dir bb tb k ds s))) = fTestPath (newRecord s)"
  by (induction ds arbitrary: k s)
     (simp_all add: differ_loop_Cons differ_step_frame del: differ_loop.simps(2))

lemma differ_step_diffs:
  "fDiffs (newRecord (fst (differ_step env dir bb tb k d s))) =
     fDiffs (newRecord s) @
       (if queueDiff d bb tb \<ge> 0
        then [\<lparr>fDiffName = getName d, fResult = getResult d (queueDiff d bb tb),
               fPointsOfInterest = getPointsOfInterest d (queueDiff d bb tb)\<rparr>]
        else [])"
  by (simp add: differ_step_def Let_def)

lemma differ_loop_diffs:
  "fDiffs (newRecord (fst (differ_loop env dir bb tb k ds s))) =
     fDiffs (newRecord s) @
       map (\<lambda>d. \<lparr>fDiffName = getName d, fResult = getResult d (queueDiff d bb tb),
                  fPointsOfInterest = getPointsOfInterest d (queueDiff d bb tb)\<rparr>)
         (filter (\<lambda>d. queueDiff d bb tb \<ge> 0) ds)"
  by (induction ds arbitrary: k s)
     (simp_all add: differ_loop_Cons differ_step_diffs del: differ_loop.simps(2))

lemma link_record_Inr:
  assumes "sk_debug \<longrightarrow> SkBasename env bp \<noteq> [] \<and> SkBasename env tp \<noteq> []"
  shows "link_record sk_debug env this bp tp bb tb next =
     Inr (this\<lparr>fRecords :=
            newRecord (fst (differ_loop env (fDifferenceDir this) bb tb 0 (fDiffers this)
              \<lparr>alphaMaskPending = False, alphaMaskCreated = False,
               newRecord = \<lparr>fCommonName = longest_common_prefix (SkBasename env bp) (SkBasename env tp),
                            fDifferencePath = [], fBaselinePath = bp, fTestPath = tp,
                            fDiffs = []\<rparr>\<rparr>)) # next\<rparr>,
          snd (differ_loop env (fDifferenceDir this) bb tb 0 (fDiffers this)
              \<lparr>alphaMaskPending = False, alphaMaskCreated = False,
               newRecord = \<lparr>fCommonName = longest_common_prefix (SkBasename env bp) (SkBasename env tp),
                            fDifferencePath = [], fBaselinePath = bp, fTestPath = tp,
                            fDiffs = []\<rparr>\<rparr>))"
  using get_common_prefix_lcp [OF assms]
  by (simp add: link_record_def Let_def split: prod.splits)

lemma addDiff_decoded:
  "DecodeFile env bp = Some bb \<Longrightarrow> DecodeFile env tp = Some tb \<Longrightarrow>
   addDiff sk_debug env this bp tp = link_record sk_debug env this bp tp bb tb (fRecords this)"
  by (simp add: addDiff_def)

lemma example_basename [simp]:
  "SkBasename example_env ''base/x.png'' = ''x.png''"
  "SkBasename example_env ''test/y.png'' = ''y.png''"
  "SkBasename example_env ''base/cat.png'' = ''cat.png''"
  "SkBasename example_env ''test/category.png'' = ''category.png''"
  by (simp_all add: example_env_def)

subsection \<open>The common name of a record\<close>

text \<open>
  C2 (as amended). For a pair that decodes and whose two base filenames are not empty,
  \<^verbatim>\<open>addDiff\<close> links one record whose common name is what \<^verbatim>\<open>get_common_prefix\<close>
  returns for the base filenames: their longest common prefix. It is the whole base
  filename when that is a prefix of the other one, and it is not empty exactly when
  the two base filenames start with the same character.
\<close>

theorem commonName_longest_common_prefix:
  assumes "DecodeFile env baselinePath = Some baselineBitmap"
    and "DecodeFile env testPath = Some testBitmap"
    and "SkBasename env baselinePath \<noteq> []" and "SkBasename env testPath \<noteq> []"
  shows "\<exists>record evs.
      addDiff sk_debug env this baselinePath testPath
        = Inr (this\<lparr>fRecords := record # fRecords this\<rparr>, evs)
      \<and> get_common_prefix sk_debug (SkBasename env baselinePath) (SkBasename env testPath)
          = Inr (fCommonName record)
      \<and> fCommonName record
          = longest_common_prefix (SkBasename env baselinePath) (SkBasename env testPath)
      \<and> (fCommonName record \<noteq> []) =
          (hd (SkBasename env baselinePath) = hd (SkBasename env testPath))
      \<and> (prefix (SkBasename env baselinePath) (SkBasename env testPath)
           \<longrightarrow> fCommonName record = SkBasename env baselinePath)
      \<and> (prefix (SkBasename env testPath) (SkBasename env baselinePath)
           \<longrightarrow> fCommonName record = SkBasename env testPath)"
proof -
  let ?a = "SkBasename env baselinePath" and ?b = "SkBasename env testPath"
  have dbg: "sk_debug \<longrightarrow> ?a \<noteq> [] \<and> ?b \<noteq> []"
    using assms(3,4) by simp
  let ?loop = "differ_loop env (fDifferenceDir this) baselineBitmap testBitmap 0 (fDiffers this)
      \<lparr>alphaMaskPending = False, alphaMaskCreated = False,
       newRecord = \<lparr>fCommonName = longest_common_prefix ?a ?b, fDifferencePath = [],
                    fBaselinePath = baselinePath, fTestPath = testPath, fDiffs = []\<rparr>\<rparr>"
  have run: "addDiff sk_debug env this baselinePath testPath
      = Inr (this\<lparr>fRecords := newRecord (fst ?loop) # fRecords this\<rparr>, snd ?loop)"
    using assms(1,2) link_record_Inr [OF dbg] by (simp add: addDiff_decoded)
  have name: "fCommonName (newRecord (fst ?loop)) = longest_common_prefix ?a ?b"
    by (simp add: differ_loop_frame)
  have "get_common_prefix sk_debug ?a ?b = Inr (fCommonName (newRecord (fst ?loop)))"
    unfolding name by (rule get_common_prefix_lcp [OF dbg])
  moreover have "(fCommonName (newRecord (fst ?loop)) \<noteq> []) = (hd ?a = hd ?b)"
    unfolding name by (rule lcp_nonempty_iff [OF assms(3,4)])
  moreover have "prefix ?a ?b \<longrightarrow> fCommonName (newRecord (fst ?loop)) = ?a"
    unfolding name by (blast intro: lcp_prefix_left)
  moreover have "prefix ?b ?a \<longrightarrow> fCommonName (newRecord (fst ?loop)) = ?b"
    unfolding name by (blast intro: lcp_prefix_right)
  ultimately show ?thesis
    using run name by blast
qed

theorem commonName_longest_common_prefix_witness:
  "\<exists>record evs.
      addDiff True example_env (example_context [] [] 1) ''base/x.png'' ''test/y.png''
        = Inr ((example_context [] [] 1)\<lparr>fRecords := [record]\<rparr>, evs)
      \<and> fCommonName record = []"
proof -
  have d: "DecodeFile example_env ''base/x.png'' = Some ''base/x.png''"
    "DecodeFile example_env ''test/y.png'' = Some ''test/y.png''"
    by (simp_all add: example_env_def)
  have n: "SkBasename example_env ''base/x.png'' \<noteq> []" "SkBasename example_env ''test/y.png'' \<noteq> []"
    by simp_all
  from commonName_longest_common_prefix [OF d n, of True "example_context [] [] 1"]
  show ?thesis
    by (auto simp: example_context_def)
qed

text \<open>
  C2 as the specification states it fails: \<open>x.png\<close> and \<open>y.png\<close> are not empty and
  share no prefix, and the common name is empty, not the shorter of the two.
\<close>

theorem commonName_empty_counterexample:
  "get_common_prefix True ''x.png'' ''y.png'' = Inr []
   \<and> get_common_prefix False ''x.png'' ''y.png'' = Inr []"
  by (simp add: get_common_prefix_def prefix_loop.simps)

subsection \<open>Load failure\<close>

text \<open>
  C4. When the baseline image or the test image does not decode, \<^verbatim>\<open>addDiff\<close> returns
  the context as it was, so no record is linked, and its only event is the log line
  for the first path that failed: no method of a differ is called.
\<close>

theorem addDiff_load_failure:
  assumes "DecodeFile env baselinePath = None \<or> DecodeFile env testPath = None"
  shows "addDiff sk_debug env this baselinePath testPath =
     Inr (this, [SkDebugf (failed_to_load
                   (if DecodeFile env baselinePath = None then baselinePath else testPath))])"
  using assms by (auto simp: addDiff_def split: option.splits)

theorem addDiff_load_failure_witness:
  "addDiff True example_env (example_context [example_differ ''a'' True 0 1 []] ''out'' 1)
      ''base/x.png'' ''test/missing.png''
    = Inr (example_context [example_differ ''a'' True 0 1 []] ''out'' 1,
           [SkDebugf (failed_to_load ''test/missing.png'')])"
proof -
  have "DecodeFile example_env ''base/x.png'' = None
        \<or> DecodeFile example_env ''test/missing.png'' = None"
    by (simp add: example_env_def)
  from addDiff_load_failure [OF this] show ?thesis
    by (simp add: example_env_def)
qed

subsection \<open>One record per pair\<close>

text \<open>
  C5. For a pair that decodes (with non-empty base filenames in a debug build, where
  \<^verbatim>\<open>get_common_prefix\<close> asserts it), \<^verbatim>\<open>addDiff\<close> links exactly one new record in
  front of the store. Its \<^verbatim>\<open>fDiffs\<close> has one entry for each differ whose
  \<^verbatim>\<open>queueDiff\<close> answered a handle \<open>\<ge> 0\<close> and none for the others, in the order of
  \<^verbatim>\<open>fDiffers\<close>, each with that differ's name, result and points of interest; so it has
  at most as many entries as there are differs.
\<close>

theorem addDiff_one_record:
  assumes "DecodeFile env baselinePath = Some baselineBitmap"
    and "DecodeFile env testPath = Some testBitmap"
    and "sk_debug \<longrightarrow> SkBasename env baselinePath \<noteq> [] \<and> SkBasename env testPath \<noteq> []"
  shows "\<exists>record evs.
      addDiff sk_debug env this baselinePath testPath
        = Inr (this\<lparr>fRecords := record # fRecords this\<rparr>, evs)
      \<and> fBaselinePath record = baselinePath \<and> fTestPath record = testPath
      \<and> fDiffs record =
          map (\<lambda>differ.
                 \<lparr>fDiffName = getName differ,
                  fResult = getResult differ (queueDiff differ baselineBitmap testBitmap),
                  fPointsOfInterest =
                    getPointsOfInterest differ (queueDiff differ baselineBitmap testBitmap)\<rparr>)
            (filter (\<lambda>differ. queueDiff differ baselineBitmap testBitmap \<ge> 0) (fDiffers this))
      \<and> length (fDiffs record) \<le> length (fDiffers this)"
proof -
  let ?a = "SkBasename env baselinePath" and ?b = "SkBasename env testPath"
  let ?loop = "differ_loop env (fDifferenceDir this) baselineBitmap testBitmap 0 (fDiffers this)
      \<lparr>alphaMaskPending = False, alphaMaskCreated = False,
       newRecord = \<lparr>fCommonName = longest_common_prefix ?a ?b, fDifferencePath = [],
                    fBaselinePath = baselinePath, fTestPath = testPath, fDiffs = []\<rparr>\<rparr>"
  have run: "addDiff sk_debug env this baselinePath testPath
      = Inr (this\<lparr>fRecords := newRecord (fst ?loop) # fRecords this\<rparr>, snd ?loop)"
    using assms(1,2) link_record_Inr [OF assms(3)] by (simp add: addDiff_decoded)
  have paths: "fBaselinePath (newRecord (fst ?loop)) = baselinePath"
    "fTestPath (newRecord (fst ?loop)) = testPath"
    by (simp_all add: differ_loop_frame)
  have diffs: "fDiffs (newRecord (fst ?loop)) =
          map (\<lambda>differ.
                 \<lparr>fDiffName = getName differ,
                  fResult = getResult differ (queueDiff differ baselineBitmap testBitmap),
                  fPointsOfInterest =
                    getPointsOfInterest differ (queueDiff differ baselineBitmap testBitmap)\<rparr>)
            (filter (\<lambda>differ. queueDiff differ baselineBitmap testBitmap \<ge> 0) (fDiffers this))"
    by (simp add: differ_loop_diffs)
  have "length (fDiffs (newRecord (fst ?loop))) \<le> length (fDiffers this)"
    unfolding diffs by simp
  with run paths diffs show ?thesis
    by (intro exI [of _ "newRecord (fst ?loop)"] exI [of _ "snd ?loop"]) simp
qed

theorem addDiff_one_record_witness:
  "\<exists>record evs.
      addDiff True example_env
          (example_context [example_differ ''a'' False (- 1) 1 [],
                            example_differ ''b'' False 4 0.5 [(0, 0), (1, 2)]] [] 1)
          ''base/cat.png'' ''test/category.png''
        = Inr ((example_context [example_differ ''a'' False (- 1) 1 [],
                            example_differ ''b'' False 4 0.5 [(0, 0), (1, 2)]] [] 1)
                 \<lparr>fRecords := [record]\<rparr>, evs)
      \<and> fDiffs record
          = [\<lparr>fDiffName = ''b'', fResult = 0.5, fPointsOfInterest = [(0, 0), (1, 2)]\<rparr>]"
proof -
  have d: "DecodeFile example_env ''base/cat.png'' = Some ''base/cat.png''"
    "DecodeFile example_env ''test/category.png'' = Some ''test/category.png''"
    by (simp_all add: example_env_def)
  have n: "True \<longrightarrow> SkBasename example_env ''base/cat.png'' \<noteq> []
       \<and> SkBasename example_env ''test/category.png'' \<noteq> []"
    by simp
  from addDiff_one_record [OF d n,
      of "example_context [example_differ ''a'' False (- 1) 1 [],
                            example_differ ''b'' False 4 0.5 [(0, 0), (1, 2)]] [] 1"]
  show ?thesis
    by (auto simp: example_context_def example_differ_def)
qed

subsection \<open>The alpha mask question\<close>

text \<open>
  C9. In one call of \<^verbatim>\<open>addDiff\<close>, when the differ at index \<open>i\<close> answered true to
  \<^verbatim>\<open>enablePOIAlphaMask\<close> and its \<^verbatim>\<open>queueDiff\<close> gave a handle \<open>\<ge> 0\<close>, no differ at
  a later index \<open>j\<close> is asked \<^verbatim>\<open>enablePOIAlphaMask\<close>, whatever the first differ's
  result was. In the example the first differ's result is \<^verbatim>\<open>RESULT_CORRECT\<close>: no file
  is encoded, the difference path stays empty and the second differ is still not asked.
\<close>

theorem mask_question_asked_once:
  assumes "addDiff sk_debug env this baselinePath testPath = Inr (this', evs)"
    and "DifferCall i (EnablePOIAlphaMask True) \<in> set evs"
    and "DifferCall i (QueueDiff diffID) \<in> set evs"
    and "diffID \<ge> 0" and "i < j"
  shows "DifferCall j (EnablePOIAlphaMask answer) \<notin> set evs"
proof (cases "DecodeFile env baselinePath")
  case None
  with assms(1,2) show ?thesis by (auto simp: addDiff_def)
next
  case (Some baselineBitmap)
  show ?thesis
  proof (cases "DecodeFile env testPath")
    case None
    with Some assms(1,2) show ?thesis by (auto simp: addDiff_def)
  next
    case (Some testBitmap)
    with \<open>DecodeFile env baselinePath = Some baselineBitmap\<close> assms(1)
    have linked: "link_record sk_debug env this baselinePath testPath baselineBitmap testBitmap
        (fRecords this) = Inr (this', evs)"
      by (simp add: addDiff_def)
    then obtain commonName where
      "get_common_prefix sk_debug (SkBasename env baselinePath) (SkBasename env testPath)
         = Inr commonName"
      by (cases "get_common_prefix sk_debug (SkBasename env baselinePath) (SkBasename env testPath)")
         (simp_all add: link_record_def Let_def)
    with linked have
      evs: "evs = snd (differ_loop env (fDifferenceDir this) baselineBitmap testBitmap 0
                (fDiffers this)
                \<lparr>alphaMaskPending = False, alphaMaskCreated = False,
                 newRecord = \<lparr>fCommonName = commonName, fDifferencePath = [],
                   fBaselinePath = baselinePath, fTestPath = testPath, fDiffs = []\<rparr>\<rparr>)"
      by (auto simp: link_record_def Let_def split: prod.splits)
    show ?thesis
      using assms(2-5) unfolding evs by (rule differ_loop_mask_once)
  qed
qed

theorem mask_question_asked_once_witness:
  "\<exists>this' evs.
     addDiff True example_env
        (example_context [example_differ ''a'' True 0 1 [], example_differ ''b'' True 1 0.5 []]
           ''out'' 1)
        ''base/cat.png'' ''test/category.png'' = Inr (this', evs)
     \<and> DifferCall 0 (EnablePOIAlphaMask True) \<in> set evs
     \<and> DifferCall 0 (QueueDiff 0) \<in> set evs
     \<and> DifferCall 1 (EnablePOIAlphaMask True) \<notin> set evs
     \<and> map fDifferencePath (fRecords this') = [[]]"
proof -
  let ?store = "example_context [example_differ ''a'' True 0 1 [], example_differ ''b'' True 1 0.5 []]
           ''out'' 1"
  let ?evs = "[DifferCall 0 (EnablePOIAlphaMask True), DifferCall 0 (QueueDiff 0),
       DifferCall 0 GetName, DifferCall 0 (GetResult 0),
       DifferCall 0 (GetPointsOfInterestCount 0),
       DifferCall 0 (GetPointsOfInterest 0), DifferCall 0 (DeleteDiff 0),
       DifferCall 1 (QueueDiff 1), DifferCall 1 GetName,
       DifferCall 1 (GetResult 1),
       DifferCall 1 (GetPointsOfInterestCount 1),
       DifferCall 1 (GetPointsOfInterest 1), DifferCall 1 (DeleteDiff 1)] :: string event list"
  let ?store' = "?store\<lparr>fRecords :=
      [\<lparr>fCommonName = ''cat'', fDifferencePath = [], fBaselinePath = ''base/cat.png'',
        fTestPath = ''test/category.png'',
        fDiffs = [\<lparr>fDiffName = ''a'', fResult = 1, fPointsOfInterest = []\<rparr>,
                  \<lparr>fDiffName = ''b'', fResult = 0.5, fPointsOfInterest = []\<rparr>]\<rparr>]\<rparr>"
  have run: "addDiff True example_env ?store ''base/cat.png'' ''test/category.png''
      = Inr (?store', ?evs)"
    by (simp add: addDiff_def link_record_def example_env_def example_context_def
          example_differ_def get_common_prefix_def prefix_loop.simps differ_step_def Let_def)
  have "DifferCall 1 (EnablePOIAlphaMask True) \<notin> set ?evs"
    by (rule mask_question_asked_once [OF run, of 0 0 1]) simp_all
  with run show ?thesis
    by (intro exI [of _ ?store'] exI [of _ ?evs]) (simp add: example_context_def)
qed

subsection \<open>Points of interest in the JSON output\<close>

lemma poi_loop_step:
  assumes "i < length pois" and "i < kMaxPOI"
  shows "poi_loop env pois i stream =
     poi_loop env pois (Suc i) (stream @ spec_poi_entry env pois (min (length pois) kMaxPOI) i)"
proof -
  have "(i + 1 < length pois \<and> i + 1 < kMaxPOI) = (i + 1 < min (length pois) kMaxPOI)"
    by auto
  with assms show ?thesis
    by (subst poi_loop.simps) (simp add: Let_def spec_poi_entry_def)
qed

lemma poi_loop_stop:
  "\<not> (i < length pois \<and> i < kMaxPOI) \<Longrightarrow> poi_loop env pois i stream = stream"
  by (subst poi_loop.simps) auto

lemma poi_loop_from:
  "n = min (length pois) kMaxPOI \<Longrightarrow> i \<le> n \<Longrightarrow>
   poi_loop env pois i stream = stream @ concat (map (spec_poi_entry env pois n) [i..<n])"
proof (induction "n - i" arbitrary: i stream)
  case 0
  then have "\<not> (i < length pois \<and> i < kMaxPOI)" by auto
  with 0 show ?case by (simp add: poi_loop_stop)
next
  case (Suc k)
  then have lt: "i < n" and cond: "i < length pois" "i < kMaxPOI" by auto
  have rest: "poi_loop env pois (Suc i) (stream @ spec_poi_entry env pois n i)
        = (stream @ spec_poi_entry env pois n i)
            @ concat (map (spec_poi_entry env pois n) [Suc i..<n])"
    using Suc lt by (intro Suc.hyps) auto
  have step: "poi_loop env pois i stream
        = poi_loop env pois (Suc i) (stream @ spec_poi_entry env pois n i)"
    using poi_loop_step [OF cond] Suc.prems(1) by simp
  have upt: "[i..<n] = i # [Suc i..<n]"
    using lt by (rule upt_conv_Cons)
  show ?case
    unfolding step rest upt by simp
qed

lemma poi_loop_text:
  "poi_loop env pois 0 stream =
     stream @ concat (spec_poi_entries env pois (min (length pois) kMaxPOI))"
  unfolding spec_poi_entries_def by (rule poi_loop_from) simp_all

lemma diffs_loop_step_text:
  assumes "i < length ds"
  shows "diffs_loop env ds i stream =
     diffs_loop env ds (Suc i)
       (stream @ spec_diff_data env (ds ! i)
          @ (if i + 1 < length ds then '','' else []) @ ''                '' @ newline)"
  using assms
  by (subst diffs_loop.simps) (simp add: Let_def poi_loop_text spec_diff_data_def kMaxPOI_def)

lemma diffs_loop_stop:
  "\<not> i < length ds \<Longrightarrow> diffs_loop env ds i stream = stream"
  by (subst diffs_loop.simps) simp

lemma diffs_loop_from:
  "i \<le> length ds \<Longrightarrow>
   diffs_loop env ds i stream = stream @ concat (map (spec_diff_entry env ds) [i..<length ds])"
proof (induction "length ds - i" arbitrary: i stream)
  case 0
  then show ?case by (simp add: diffs_loop_stop)
next
  case (Suc k)
  then have lt: "i < length ds" by simp
  have step: "diffs_loop env ds i stream
        = diffs_loop env ds (Suc i) (stream @ spec_diff_entry env ds i)"
    unfolding spec_diff_entry_def by (rule diffs_loop_step_text [OF lt])
  have rest: "diffs_loop env ds (Suc i) (stream @ spec_diff_entry env ds i)
        = (stream @ spec_diff_entry env ds i)
            @ concat (map (spec_diff_entry env ds) [Suc i..<length ds])"
    using Suc lt by (intro Suc.hyps) auto
  have upt: "[i..<length ds] = i # [Suc i..<length ds]"
    using lt by (rule upt_conv_Cons)
  show ?case
    unfolding step rest upt by simp
qed

lemma diffs_loop_closed: "diffs_loop env ds 0 stream = stream @ spec_diffs env ds"
  unfolding spec_diffs_def by (rule diffs_loop_from) simp

lemma spec_record_entry_Cons:
  "spec_record_entry env (r # rs) 0 = spec_record env r @ (if rs \<noteq> [] then '','' else []) @ newline"
  "spec_record_entry env (r # rs) (Suc i) = spec_record_entry env rs i"
  by (simp_all add: spec_record_entry_def)

lemma spec_records_Cons:
  "spec_records env (r # rs) =
     spec_record env r @ (if rs \<noteq> [] then '','' else []) @ newline @ spec_records env rs"
proof -
  have "map (spec_record_entry env (r # rs)) [0..<Suc (length rs)]
      = spec_record_entry env (r # rs) 0 # map (spec_record_entry env rs) [0..<length rs]"
    by (simp only: map_upt_Suc spec_record_entry_Cons(2))
  then show ?thesis
    by (simp only: spec_records_def length_Cons concat.simps spec_record_entry_Cons(1) append_assoc)
qed

lemma records_loop_step:
  "records_loop env (r # rs) stream =
     records_loop env rs
       (stream @ spec_record env r @ (if rs \<noteq> [] then '','' else []) @ newline)"
  by (simp add: Let_def diffs_loop_closed spec_record_def)

lemma records_loop_closed: "records_loop env records stream = stream @ spec_records env records"
proof (induction records arbitrary: stream)
  case Nil
  show ?case by (simp add: spec_records_def)
next
  case (Cons r rs)
  show ?case
    unfolding records_loop_step Cons.IH spec_records_Cons by simp
qed

lemma outputRecords_closed:
  "outputRecords env this stream useJSONP = (this, stream @ spec_json env (fRecords this) useJSONP)"
  by (simp add: outputRecords_def Let_def records_loop_closed spec_json_def)

lemma spec_json_single:
  assumes "records = [r]" and "fDiffs r = [data]" and "length (fPointsOfInterest data) = 150"
  shows "spec_json env records useJSONP =
     (if useJSONP then ''var SkPDiffRecords = {'' @ newline else ''{'' @ newline)
       @ ''    '' @ dquote @ ''records'' @ dquote @ '': ['' @ newline
       @ ''        {'' @ newline
       @ ''            '' @ dquote @ ''commonName'' @ dquote @ '': '' @ dquote
       @ fCommonName r @ dquote @ '','' @ newline
       @ ''            '' @ dquote @ ''differencePath'' @ dquote @ '': '' @ dquote
       @ get_absolute_path env (fDifferencePath r) @ dquote @ '','' @ newline
       @ ''            '' @ dquote @ ''baselinePath'' @ dquote @ '': '' @ dquote
       @ get_absolute_path env (fBaselinePath r) @ dquote @ '','' @ newline
       @ ''            '' @ dquote @ ''testPath'' @ dquote @ '': '' @ dquote
       @ get_absolute_path env (fTestPath r) @ dquote @ '','' @ newline
       @ ''            '' @ dquote @ ''diffs'' @ dquote @ '': ['' @ newline
       @ ''                {'' @ newline
       @ ''                    '' @ dquote @ ''differName'' @ dquote @ '': '' @ dquote
       @ fDiffName data @ dquote @ '','' @ newline
       @ ''                    '' @ dquote @ ''result'' @ dquote @ '': ''
       @ writeScalarAsText env (fResult data) @ '','' @ newline
       @ ''                    '' @ dquote @ ''pointsOfInterest'' @ dquote @ '': ['' @ newline
       @ concat (spec_poi_entries env (fPointsOfInterest data) 100)
       @ ''                    ]'' @ newline
       @ ''                }'' @ ''                '' @ newline
       @ ''            ]'' @ newline
       @ ''        }'' @ newline
       @ ''    ]'' @ newline
       @ (if useJSONP then ''};'' @ newline else ''}'' @ newline)"
proof -
  have data: "spec_diffs env [data] = spec_diff_data env data @ ''                '' @ newline"
    by (simp add: spec_diffs_def spec_diff_entry_def)
  have recs: "spec_records env [r] = spec_record env r @ newline"
    by (simp add: spec_records_def spec_record_entry_def)
  show ?thesis
    unfolding assms(1) spec_json_def recs spec_record_def assms(2) data spec_diff_data_def assms(3)
    by simp
qed

text \<open>
  C6. \<^verbatim>\<open>outputRecords\<close> appends the specification's report of the store, so every
  \<^verbatim>\<open>DiffData\<close> of every record is serialized with the entries of its first
  \<open>min (count, kMaxPOI)\<close> points of interest, at most 100, with a comma after each
  but the last; the closed forms of the loop over \<^verbatim>\<open>fDiffs\<close> and of the loop over the
  points say the same of each loop. For 150 points exactly 100 entries are written, and
  the last one written, for the point at index 99, ends with \<open>]\<close> and the newline,
  with no comma; for a store of one record with one \<^verbatim>\<open>DiffData\<close> of 150 points the
  whole output is written out. The cap is not applied when the points are collected:
  the \<^verbatim>\<open>DiffData\<close> that \<^verbatim>\<open>addDiff\<close> appends for a differ holds all the points the
  differ reports.
\<close>

theorem outputRecords_truncates_points:
  "outputRecords env this stream useJSONP
     = (this, stream @ spec_json env (fRecords this) useJSONP)
   \<and> diffs_loop env recordDiffs 0 stream = stream @ spec_diffs env recordDiffs
   \<and> poi_loop env pointsOfInterest 0 stream =
       stream @ concat (spec_poi_entries env pointsOfInterest
                          (min (length pointsOfInterest) kMaxPOI))
   \<and> length (spec_poi_entries env pointsOfInterest (min (length pointsOfInterest) kMaxPOI))
       = min (length pointsOfInterest) 100
   \<and> (length pointsOfInterest = 150 \<longrightarrow>
        poi_loop env pointsOfInterest 0 stream
          = stream @ concat (spec_poi_entries env pointsOfInterest 100)
        \<and> length (spec_poi_entries env pointsOfInterest 100) = 100
        \<and> last (spec_poi_entries env pointsOfInterest 100)
            = ''                        ['' @ writeDecAsText env (fst (pointsOfInterest ! 99))
                @ '','' @ writeDecAsText env (snd (pointsOfInterest ! 99)) @ '']'' @ newline)
   \<and> (fRecords this = [r] \<and> fDiffs r = [data] \<and> length (fPointsOfInterest data) = 150 \<longrightarrow>
        outputRecords env this stream useJSONP =
          (this, stream
             @ (if useJSONP then ''var SkPDiffRecords = {'' @ newline else ''{'' @ newline)
             @ ''    '' @ dquote @ ''records'' @ dquote @ '': ['' @ newline
             @ ''        {'' @ newline
             @ ''            '' @ dquote @ ''commonName'' @ dquote @ '': '' @ dquote
             @ fCommonName r @ dquote @ '','' @ newline
             @ ''            '' @ dquote @ ''differencePath'' @ dquote @ '': '' @ dquote
             @ get_absolute_path env (fDifferencePath r) @ dquote @ '','' @ newline
             @ ''            '' @ dquote @ ''baselinePath'' @ dquote @ '': '' @ dquote
             @ get_absolute_path env (fBaselinePath r) @ dquote @ '','' @ newline
             @ ''            '' @ dquote @ ''testPath'' @ dquote @ '': '' @ dquote
             @ get_absolute_path env (fTestPath r) @ dquote @ '','' @ newline
             @ ''            '' @ dquote @ ''diffs'' @ dquote @ '': ['' @ newline
             @ ''                {'' @ newline
             @ ''                    '' @ dquote @ ''differName'' @ dquote @ '': '' @ dquote
             @ fDiffName data @ dquote @ '','' @ newline
             @ ''                    '' @ dquote @ ''result'' @ dquote @ '': ''
             @ writeScalarAsText env (fResult data) @ '','' @ newline
             @ ''                    '' @ dquote @ ''pointsOfInterest'' @ dquote @ '': [''
             @ newline
             @ concat (spec_poi_entries env (fPointsOfInterest data) 100)
             @ ''                    ]'' @ newline
             @ ''                }'' @ ''                '' @ newline
             @ ''            ]'' @ newline
             @ ''        }'' @ newline
             @ ''    ]'' @ newline
             @ (if useJSONP then ''};'' @ newline else ''}'' @ newline)))
   \<and> (queueDiff differ baselineBitmap testBitmap \<ge> 0 \<longrightarrow>
        fPointsOfInterest (last (fDiffs (newRecord (fst
            (differ_step env differenceDir baselineBitmap testBitmap differIndex differ s)))))
          = getPointsOfInterest differ (queueDiff differ baselineBitmap testBitmap))"
proof (intro conjI impI)
  show "outputRecords env this stream useJSONP
     = (this, stream @ spec_json env (fRecords this) useJSONP)"
    by (rule outputRecords_closed)
  show "diffs_loop env recordDiffs 0 stream = stream @ spec_diffs env recordDiffs"
    by (rule diffs_loop_closed)
  show pois: "poi_loop env pointsOfInterest 0 stream =
       stream @ concat (spec_poi_entries env pointsOfInterest
                          (min (length pointsOfInterest) kMaxPOI))"
    by (rule poi_loop_text)
  show "length (spec_poi_entries env pointsOfInterest (min (length pointsOfInterest) kMaxPOI))
       = min (length pointsOfInterest) 100"
    by (simp add: spec_poi_entries_def kMaxPOI_def)
  show "length (spec_poi_entries env pointsOfInterest 100) = 100"
    by (simp add: spec_poi_entries_def)
  show "poi_loop env pointsOfInterest 0 stream
          = stream @ concat (spec_poi_entries env pointsOfInterest 100)"
    if "length pointsOfInterest = 150"
    using pois that by (simp add: kMaxPOI_def)
  have "last (spec_poi_entries env pointsOfInterest 100)
            = spec_poi_entry env pointsOfInterest 100 99"
    by (simp add: spec_poi_entries_def last_map)
  then show "last (spec_poi_entries env pointsOfInterest 100)
            = ''                        ['' @ writeDecAsText env (fst (pointsOfInterest ! 99))
                @ '','' @ writeDecAsText env (snd (pointsOfInterest ! 99)) @ '']'' @ newline"
    by (simp add: spec_poi_entry_def)
  show "fPointsOfInterest (last (fDiffs (newRecord (fst
            (differ_step env differenceDir baselineBitmap testBitmap differIndex differ s)))))
          = getPointsOfInterest differ (queueDiff differ baselineBitmap testBitmap)"
    if "queueDiff differ baselineBitmap testBitmap \<ge> 0"
    using that by (simp add: differ_step_diffs)
next
  assume single: "fRecords this = [r] \<and> fDiffs r = [data]
      \<and> length (fPointsOfInterest data) = 150"
  then have "fRecords this = [r]" "fDiffs r = [data]" "length (fPointsOfInterest data) = 150"
    by simp_all
  from spec_json_single [OF this, of env useJSONP]
  show "outputRecords env this stream useJSONP =
          (this, stream
             @ (if useJSONP then ''var SkPDiffRecords = {'' @ newline else ''{'' @ newline)
             @ ''    '' @ dquote @ ''records'' @ dquote @ '': ['' @ newline
             @ ''        {'' @ newline
             @ ''            '' @ dquote @ ''commonName'' @ dquote @ '': '' @ dquote
             @ fCommonName r @ dquote @ '','' @ newline
             @ ''            '' @ dquote @ ''differencePath'' @ dquote @ '': '' @ dquote
             @ get_absolute_path env (fDifferencePath r) @ dquote @ '','' @ newline
             @ ''            '' @ dquote @ ''baselinePath'' @ dquote @ '': '' @ dquote
             @ get_absolute_path env (fBaselinePath r) @ dquote @ '','' @ newline
             @ ''            '' @ dquote @ ''testPath'' @ dquote @ '': '' @ dquote
             @ get_absolute_path env (fTestPath r) @ dquote @ '','' @ newline
             @ ''            '' @ dquote @ ''diffs'' @ dquote @ '': ['' @ newline
             @ ''                {'' @ newline
             @ ''                    '' @ dquote @ ''differName'' @ dquote @ '': '' @ dquote
             @ fDiffName data @ dquote @ '','' @ newline
             @ ''                    '' @ dquote @ ''result'' @ dquote @ '': ''
             @ writeScalarAsText env (fResult data) @ '','' @ newline
             @ ''                    '' @ dquote @ ''pointsOfInterest'' @ dquote @ '': [''
             @ newline
             @ concat (spec_poi_entries env (fPointsOfInterest data) 100)
             @ ''                    ]'' @ newline
             @ ''                }'' @ ''                '' @ newline
             @ ''            ]'' @ newline
             @ ''        }'' @ newline
             @ ''    ]'' @ newline
             @ (if useJSONP then ''};'' @ newline else ''}'' @ newline))"
    unfolding outputRecords_closed by (simp only: prod.inject simp_thms same_append_eq)
qed

theorem outputRecords_truncates_points_witness:
  "outputRecords example_env
     ((example_context [] [] 1)\<lparr>fRecords :=
        [\<lparr>fCommonName = ''x.png'', fDifferencePath = [], fBaselinePath = ''base/x.png'',
          fTestPath = ''test/x.png'',
          fDiffs = [\<lparr>fDiffName = ''a'', fResult = 1,
                     fPointsOfInterest = replicate 150 (0, 0)\<rparr>]\<rparr>]\<rparr>)
     [] False
    = ((example_context [] [] 1)\<lparr>fRecords :=
        [\<lparr>fCommonName = ''x.png'', fDifferencePath = [], fBaselinePath = ''base/x.png'',
          fTestPath = ''test/x.png'',
          fDiffs = [\<lparr>fDiffName = ''a'', fResult = 1,
                     fPointsOfInterest = replicate 150 (0, 0)\<rparr>]\<rparr>]\<rparr>,
       ''{'' @ newline
         @ ''    '' @ dquote @ ''records'' @ dquote @ '': ['' @ newline
         @ ''        {'' @ newline
         @ ''            '' @ dquote @ ''commonName'' @ dquote @ '': '' @ dquote
         @ ''x.png'' @ dquote @ '','' @ newline
         @ ''            '' @ dquote @ ''differencePath'' @ dquote @ '': '' @ dquote
         @ dquote @ '','' @ newline
         @ ''            '' @ dquote @ ''baselinePath'' @ dquote @ '': '' @ dquote
         @ ''base/x.png'' @ dquote @ '','' @ newline
         @ ''            '' @ dquote @ ''testPath'' @ dquote @ '': '' @ dquote
         @ ''test/x.png'' @ dquote @ '','' @ newline
         @ ''            '' @ dquote @ ''diffs'' @ dquote @ '': ['' @ newline
         @ ''                {'' @ newline
         @ ''                    '' @ dquote @ ''differName'' @ dquote @ '': '' @ dquote
         @ ''a'' @ dquote @ '','' @ newline
         @ ''                    '' @ dquote @ ''result'' @ dquote @ '': ''
         @ ''1'' @ '','' @ newline
         @ ''                    '' @ dquote @ ''pointsOfInterest'' @ dquote @ '': ['' @ newline
         @ concat (spec_poi_entries example_env (replicate 150 (0, 0)) 100)
         @ ''                    ]'' @ newline
         @ ''                }'' @ ''                '' @ newline
         @ ''            ]'' @ newline
         @ ''        }'' @ newline
         @ ''    ]'' @ newline
         @ ''}'' @ newline)
   \<and> length (spec_poi_entries example_env (replicate 150 (0, 0)) 100) = 100
   \<and> last (spec_poi_entries example_env (replicate 150 (0, 0)) 100)
       = ''                        [0,0]'' @ newline
   \<and> length (fPointsOfInterest (last (fDiffs (newRecord (fst
        (differ_step example_env [] ''base/x.png'' ''test/x.png'' 0
           (example_differ ''a'' False 0 1 (replicate 150 (0, 0)))
           \<lparr>alphaMaskPending = False, alphaMaskCreated = False,
            newRecord = \<lparr>fCommonName = ''x.png'', fDifferencePath = [],
                         fBaselinePath = ''base/x.png'', fTestPath = ''test/x.png'',
                         fDiffs = []\<rparr>\<rparr>)))))) = 150"
proof -
  let ?data = "\<lparr>fDiffName = ''a'', fResult = 1,
      fPointsOfInterest = replicate 150 (0::int, 0::int)\<rparr>"
  let ?r = "\<lparr>fCommonName = ''x.png'', fDifferencePath = [], fBaselinePath = ''base/x.png'',
      fTestPath = ''test/x.png'', fDiffs = [?data]\<rparr>"
  let ?store = "(example_context [] [] 1)\<lparr>fRecords := [?r]\<rparr>"
  let ?differ = "example_differ ''a'' False 0 1 (replicate 150 (0, 0))"
  let ?s = "\<lparr>alphaMaskPending = False, alphaMaskCreated = False,
            newRecord = \<lparr>fCommonName = ''x.png'', fDifferencePath = [],
                         fBaselinePath = ''base/x.png'', fTestPath = ''test/x.png'',
                         fDiffs = []\<rparr>\<rparr>"
  note all = outputRecords_truncates_points [where env = example_env and this = ?store
      and stream = "[]" and useJSONP = False and recordDiffs = "[?data]"
      and pointsOfInterest = "replicate 150 (0, 0)" and r = ?r and data = ?data
      and differ = ?differ and baselineBitmap = "''base/x.png''" and testBitmap = "''test/x.png''"
      and differenceDir = "[]" and differIndex = 0 and s = ?s]
  have len: "length (replicate 150 (0::int, 0::int)) = 150"
    by simp
  have single: "fRecords ?store = [?r] \<and> fDiffs ?r = [?data]
      \<and> length (fPointsOfInterest ?data) = 150"
    by (simp add: example_context_def)
  have handle: "queueDiff ?differ ''base/x.png'' ''test/x.png'' \<ge> 0"
    by (simp add: example_differ_def)
  have dec: "writeDecAsText example_env 0 = ''0''"
    and scalar: "writeScalarAsText example_env 1 = ''1''"
    and path: "\<And>p. get_absolute_path example_env p = p"
    by (simp_all add: example_env_def)
  note pois = all [THEN conjunct2, THEN conjunct2, THEN conjunct2, THEN conjunct2,
      THEN conjunct1, THEN mp, OF len]
  note json = all [THEN conjunct2, THEN conjunct2, THEN conjunct2, THEN conjunct2,
      THEN conjunct2, THEN conjunct1, THEN mp, OF single]
  note collected = all [THEN conjunct2, THEN conjunct2, THEN conjunct2, THEN conjunct2,
      THEN conjunct2, THEN conjunct2, THEN mp, OF handle]
  show ?thesis
  proof (intro conjI)
    show "length (spec_poi_entries example_env (replicate 150 (0, 0)) 100) = 100"
      by (rule pois [THEN conjunct2, THEN conjunct1])
    show "last (spec_poi_entries example_env (replicate 150 (0, 0)) 100)
          = ''                        [0,0]'' @ newline"
      using pois [THEN conjunct2, THEN conjunct2] by (simp add: dec)
    show "length (fPointsOfInterest (last (fDiffs (newRecord (fst
        (differ_step example_env [] ''base/x.png'' ''test/x.png'' 0 ?differ ?s)))))) = 150"
      unfolding collected by (simp add: example_differ_def)
    show "outputRecords example_env ?store [] False
      = (?store,
       ''{'' @ newline
         @ ''    '' @ dquote @ ''records'' @ dquote @ '': ['' @ newline
         @ ''        {'' @ newline
         @ ''            '' @ dquote @ ''commonName'' @ dquote @ '': '' @ dquote
         @ ''x.png'' @ dquote @ '','' @ newline
         @ ''            '' @ dquote @ ''differencePath'' @ dquote @ '': '' @ dquote
         @ dquote @ '','' @ newline
         @ ''            '' @ dquote @ ''baselinePath'' @ dquote @ '': '' @ dquote
         @ ''base/x.png'' @ dquote @ '','' @ newline
         @ ''            '' @ dquote @ ''testPath'' @ dquote @ '': '' @ dquote
         @ ''test/x.png'' @ dquote @ '','' @ newline
         @ ''            '' @ dquote @ ''diffs'' @ dquote @ '': ['' @ newline
         @ ''                {'' @ newline
         @ ''                    '' @ dquote @ ''differName'' @ dquote @ '': '' @ dquote
         @ ''a'' @ dquote @ '','' @ newline
         @ ''                    '' @ dquote @ ''result'' @ dquote @ '': ''
         @ ''1'' @ '','' @ newline
         @ ''                    '' @ dquote @ ''pointsOfInterest'' @ dquote @ '': ['' @ newline
         @ concat (spec_poi_entries example_env (replicate 150 (0, 0)) 100)
         @ ''                    ]'' @ newline
         @ ''                }'' @ ''                '' @ newline
         @ ''            ]'' @ newline
         @ ''        }'' @ newline
         @ ''    ]'' @ newline
         @ ''}'' @ newline)"
      unfolding json by (simp add: scalar path)
  qed
qed

subsection \<open>Pattern mode\<close>

text \<open>
  C7. When the two patterns expand to lists of different lengths, \<^verbatim>\<open>diffPatterns\<close>
  returns the context as it was and its only event is the warning: nothing is added
  to the thread pool, no differ is called and no record is created, whatever the
  pool would have done.
\<close>

theorem diffPatterns_count_mismatch:
  assumes "glob_files env baselinePattern = Some baselineEntries"
    and "glob_files env testPattern = Some testEntries"
    and "length baselineEntries \<noteq> length testEntries"
  shows "diffPatterns sk_debug env schedule this baselinePattern testPattern =
     Inr (this, [SkDebugf (''Baseline and test patterns do not yield corresponding number of files''
                           @ newline)])"
  using assms by (simp add: diffPatterns_def)

theorem diffPatterns_count_mismatch_witness:
  "diffPatterns True example_env [0, 1, 0, 1]
      (example_context [example_differ ''a'' True 0 1 []] ''out'' 2) ''base/*.png'' ''test/*.png''
   = Inr (example_context [example_differ ''a'' True 0 1 []] ''out'' 2,
          [SkDebugf (''Baseline and test patterns do not yield corresponding number of files''
                           @ newline)])"
proof -
  have "glob_files example_env ''base/*.png'' = Some [''base/1.png'', ''base/2.png'', ''base/3.png'']"
    and "glob_files example_env ''test/*.png'' = Some [''test/1.png'', ''test/2.png'']"
    and "length [''base/1.png'', ''base/2.png'', ''base/3.png'']
          \<noteq> length [''test/1.png'', ''test/2.png'']"
    by (simp_all add: example_env_def)
  then show ?thesis by (rule diffPatterns_count_mismatch)
qed

subsection \<open>Serialization reads the store\<close>

lemma diffs_loop_step:
  assumes "i < length ds"
  shows "\<exists>text. \<forall>stream. diffs_loop env ds i stream = diffs_loop env ds (Suc i) (stream @ text)"
proof -
  have "\<forall>stream. diffs_loop env ds i stream =
     diffs_loop env ds (Suc i)
       (stream @ (spec_diff_data env (ds ! i)
          @ (if i + 1 < length ds then '','' else []) @ ''                '' @ newline))"
    by (intro allI) (rule diffs_loop_step_text [OF assms])
  then show ?thesis by (rule exI)
qed

lemma diffs_loop_text:
  "\<exists>text. \<forall>stream. diffs_loop env ds i stream = stream @ text"
proof (induction "length ds - i" arbitrary: i)
  case 0
  then have "\<forall>stream. diffs_loop env ds i stream = stream @ []"
    by (subst diffs_loop.simps) simp
  then show ?case by blast
next
  case (Suc k)
  then have "i < length ds" by simp
  from diffs_loop_step [OF this] obtain text1 where
    step: "\<And>stream. diffs_loop env ds i stream = diffs_loop env ds (Suc i) (stream @ text1)"
    by blast
  from Suc have "\<exists>text. \<forall>stream. diffs_loop env ds (Suc i) stream = stream @ text"
    by (intro Suc.hyps) simp
  then obtain text2 where
    rest: "\<And>stream. diffs_loop env ds (Suc i) stream = stream @ text2"
    by blast
  have "\<forall>stream. diffs_loop env ds i stream = stream @ (text1 @ text2)"
    by (simp add: step rest)
  then show ?case by blast
qed

lemma records_loop_text:
  "\<exists>text. \<forall>stream. records_loop env records stream = stream @ text"
proof (induction records)
  case Nil
  have "\<forall>stream. records_loop env [] stream = stream @ []" by simp
  then show ?case by blast
next
  case (Cons currentRecord others)
  obtain diffs_text where
    diffs: "\<And>stream. diffs_loop env (fDiffs currentRecord) 0 stream = stream @ diffs_text"
    using diffs_loop_text by blast
  from Cons obtain next_text where
    rest: "\<And>stream. records_loop env others stream = stream @ next_text"
    by blast
  have "\<forall>stream. records_loop env (currentRecord # others) stream =
      stream @ (''        {'' @ newline
            @ ''            '' @ dquote @ ''commonName'' @ dquote @ '': '' @ dquote
            @ fCommonName currentRecord @ dquote @ '','' @ newline
            @ ''            '' @ dquote @ ''differencePath'' @ dquote @ '': '' @ dquote
            @ get_absolute_path env (fDifferencePath currentRecord) @ dquote @ '','' @ newline
            @ ''            '' @ dquote @ ''baselinePath'' @ dquote @ '': '' @ dquote
            @ get_absolute_path env (fBaselinePath currentRecord) @ dquote @ '','' @ newline
            @ ''            '' @ dquote @ ''testPath'' @ dquote @ '': '' @ dquote
            @ get_absolute_path env (fTestPath currentRecord) @ dquote @ '','' @ newline
            @ ''            '' @ dquote @ ''diffs'' @ dquote @ '': ['' @ newline
            @ diffs_text
            @ ''            ]'' @ newline
            @ ''        }''
            @ (if others \<noteq> [] then '','' else [])
            @ newline
            @ next_text)"
    by (simp add: Let_def diffs rest)
  then show ?case by blast
qed

lemma outputRecords_text:
  "\<exists>json. \<forall>stream. outputRecords env this stream useJSONP = (this, stream @ json)"
proof -
  obtain records_text where
    records: "\<And>stream. records_loop env (fRecords this) stream = stream @ records_text"
    using records_loop_text by blast
  have "\<forall>stream. outputRecords env this stream useJSONP =
      (this, stream @ ((if useJSONP then ''var SkPDiffRecords = {'' @ newline else ''{'' @ newline)
            @ ''    '' @ dquote @ ''records'' @ dquote @ '': ['' @ newline
            @ records_text
            @ ''    ]'' @ newline
            @ (if useJSONP then ''};'' @ newline else ''}'' @ newline)))"
    by (simp add: outputRecords_def Let_def records)
  then show ?thesis by blast
qed

lemma outputCsv_this:
  "outputCsv sk_debug env this stream = Inr (this', csv) \<Longrightarrow> this' = this"
  by (auto simp: outputCsv_def split: prod.splits if_splits sum.splits)

text \<open>
  C8. \<^verbatim>\<open>outputRecords\<close> returns the context it was given, and the text it appends
  to the stream depends on that context only. So a second \<^verbatim>\<open>outputRecords\<close>, run on
  the context the first one left, writes the same bytes, also when an \<^verbatim>\<open>outputCsv\<close>
  that returned ran in between: \<^verbatim>\<open>outputCsv\<close> returns the context it was given too.
\<close>

theorem serialization_keeps_store:
  "(\<exists>json. \<forall>stream. outputRecords env this stream useJSONP = (this, stream @ json))
   \<and> (\<forall>stream this1 out1 this2 out2.
        outputRecords env this stream useJSONP = (this1, out1)
        \<and> outputRecords env this1 stream useJSONP = (this2, out2)
        \<longrightarrow> this2 = this \<and> out2 = out1)
   \<and> (\<forall>stream csvStream this1 out1 this2 csv this3 out3.
        outputRecords env this stream useJSONP = (this1, out1)
        \<and> outputCsv sk_debug env this1 csvStream = Inr (this2, csv)
        \<and> outputRecords env this2 stream useJSONP = (this3, out3)
        \<longrightarrow> this3 = this \<and> out3 = out1)"
proof -
  obtain json where
    json: "\<And>stream. outputRecords env this stream useJSONP = (this, stream @ json)"
    using outputRecords_text by blast
  show ?thesis
    by (intro conjI exI [of _ json]) (auto dest!: outputCsv_this simp: json)
qed

theorem serialization_keeps_store_witness:
  "\<exists>this1 out1 this2 csv this3 out3.
     outputRecords example_env
       ((example_context [] [] 1)\<lparr>fRecords :=
          [\<lparr>fCommonName = ''x.png'', fDifferencePath = [], fBaselinePath = ''base/x.png'',
            fTestPath = ''test/x.png'',
            fDiffs = [\<lparr>fDiffName = ''a'', fResult = 1, fPointsOfInterest = [(0, 7)]\<rparr>]\<rparr>]\<rparr>)
       [] False = (this1, out1)
     \<and> outputCsv True example_env this1 [] = Inr (this2, csv)
     \<and> csv = ''key, a'' @ newline @ ''x.png, 1.000000'' @ newline
     \<and> outputRecords example_env this2 [] False = (this3, out3)
     \<and> this3 = this1 \<and> out3 = out1"
proof -
  let ?store = "(example_context [] [] 1)\<lparr>fRecords :=
          [\<lparr>fCommonName = ''x.png'', fDifferencePath = [], fBaselinePath = ''base/x.png'',
            fTestPath = ''test/x.png'',
            fDiffs = [\<lparr>fDiffName = ''a'', fResult = 1, fPointsOfInterest = [(0, 7)]\<rparr>]\<rparr>]\<rparr>"
  let ?csv = "''key, a'' @ newline @ ''x.png, 1.000000'' @ newline"
  note facts = serialization_keeps_store [of example_env ?store False True]
  from facts [THEN conjunct1] obtain json where
    json: "\<And>stream. outputRecords example_env ?store stream False = (?store, stream @ json)"
    by (elim exE) simp
  have csv: "outputCsv True example_env ?store [] = Inr (?store, ?csv)"
    by (simp add: outputCsv_def example_context_def example_env_def csv_init_values.simps
          csv_filename_def csv_filename_loop.simps csv_print_values.simps)
  show ?thesis
    by (intro exI [of _ ?store] exI [of _ json] exI [of _ ?csv] conjI)
       (simp_all only: json [of "[]"] csv append_Nil)
qed

subsection \<open>The array of \<^verbatim>\<open>outputCsv\<close>\<close>

lemma columns_numbered_empty: "columns_numbered Map.empty 0"
  by (simp add: columns_numbered_def)

lemma columns_numbered_index:
  "columns_numbered columns cnt \<Longrightarrow> columns name = Some index \<Longrightarrow> 0 \<le> index \<and> index < cnt"
  unfolding columns_numbered_def by blast

lemma columns_numbered_set:
  assumes "columns_numbered columns cnt" and "columns name = None"
  shows "columns_numbered (columns(name \<mapsto> cnt)) (cnt + 1)"
proof -
  from assms have fin: "finite (dom columns)" and "name \<notin> dom columns"
    by (auto simp: columns_numbered_def)
  then have card: "int (card (dom (columns(name \<mapsto> cnt)))) = cnt + 1"
    using assms(1) by (simp add: columns_numbered_def)
  have "0 \<le> index \<and> index < cnt + 1" if "(columns(name \<mapsto> cnt)) n = Some index" for n index
  proof (cases "n = name")
    case True
    with that assms(1) show ?thesis by (simp add: columns_numbered_def)
  next
    case False
    with that have "columns n = Some index" by simp
    from columns_numbered_index [OF assms(1) this] show ?thesis by simp
  qed
  with fin card show ?thesis
    unfolding columns_numbered_def by simp
qed

lemma csv_header_diffs_inv:
  assumes "columns_numbered columns cnt"
    and "csv_header_diffs ds (columns, cnt, stream) = (columns', cnt', stream')"
  shows "columns_numbered columns' cnt' \<and> dom columns' = dom columns \<union> fDiffName ` set ds"
  using assms
proof (induction ds arbitrary: columns cnt stream)
  case Nil
  then show ?case by simp
next
  case (Cons data rest)
  show ?case
  proof (cases "columns (fDiffName data) = None")
    case True
    with Cons.prems(2) have run: "csv_header_diffs rest
        (columns(fDiffName data \<mapsto> cnt), cnt + 1, stream @ '', '' @ fDiffName data)
        = (columns', cnt', stream')"
      by simp
    have "columns_numbered (columns(fDiffName data \<mapsto> cnt)) (cnt + 1)"
      using Cons.prems(1) True by (rule columns_numbered_set)
    from Cons.IH [OF this run] show ?thesis by auto
  next
    case False
    with Cons.prems(2) have run: "csv_header_diffs rest (columns, cnt, stream)
        = (columns', cnt', stream')"
      by simp
    from Cons.IH [OF Cons.prems(1) run] False show ?thesis by auto
  qed
qed

lemma csv_header_records_inv:
  assumes "columns_numbered columns cnt"
    and "csv_header_records records (columns, cnt, stream) = (columns', cnt', stream')"
  shows "columns_numbered columns' cnt'
    \<and> dom columns' = dom columns \<union> (\<Union>r\<in>set records. fDiffName ` set (fDiffs r))"
  using assms
proof (induction records arbitrary: columns cnt stream)
  case Nil
  then show ?case by simp
next
  case (Cons currentRecord others)
  obtain columns1 cnt1 stream1 where
    diffs: "csv_header_diffs (fDiffs currentRecord) (columns, cnt, stream)
            = (columns1, cnt1, stream1)"
    by (cases "csv_header_diffs (fDiffs currentRecord) (columns, cnt, stream)") auto
  from csv_header_diffs_inv [OF Cons.prems(1) diffs]
  have inv1: "columns_numbered columns1 cnt1"
    and dom1: "dom columns1 = dom columns \<union> fDiffName ` set (fDiffs currentRecord)"
    by auto
  from Cons.prems(2) diffs have
    "csv_header_records others (columns1, cnt1, stream1) = (columns', cnt', stream')"
    by simp
  from Cons.IH [OF inv1 this] dom1 show ?case by auto
qed

lemma csv_init_values_ok:
  "0 \<le> i \<Longrightarrow> cnt \<le> 100 \<Longrightarrow> \<exists>values'. csv_init_values cnt i values = Inr values'"
proof (induction cnt i "values" rule: csv_init_values.induct)
  case (1 cnt i vs)
  show ?case
  proof (cases "i < cnt")
    case True
    with "1.prems" have "0 \<le> i \<and> i < 100" by simp
    moreover from this True "1.prems"
    have "\<exists>values'. csv_init_values cnt (i + 1) (vs[nat i := - 1]) = Inr values'"
      by (intro "1.IH") auto
    ultimately show ?thesis using True
      by (subst csv_init_values.simps) simp
  next
    case False
    then show ?thesis by (subst csv_init_values.simps) simp
  qed
qed

lemma csv_print_values_ok:
  "0 \<le> i \<Longrightarrow> cnt \<le> 100 \<Longrightarrow> \<exists>stream'. csv_print_values env cnt i values stream = Inr stream'"
proof (induction env cnt i "values" stream rule: csv_print_values.induct)
  case (1 env cnt i vs stream)
  show ?case
  proof (cases "i < cnt")
    case True
    with "1.prems" have "0 \<le> i \<and> i < 100" by simp
    moreover from this True "1.prems"
    have "\<exists>stream'. csv_print_values env cnt (i + 1) vs
            (stream @ '', '' @ printf_f env (vs ! nat i)) = Inr stream'"
      by (intro "1.IH") auto
    ultimately show ?thesis using True
      by (subst csv_print_values.simps) simp
  next
    case False
    then show ?thesis by (subst csv_print_values.simps) simp
  qed
qed

lemma csv_row_diffs_ok:
  assumes "columns_numbered columns cnt" and "cnt \<le> 100"
    and "fDiffName ` set ds \<subseteq> dom columns"
  shows "\<exists>values'. csv_row_diffs sk_debug columns cnt ds values = Inr values'"
  using assms(3)
proof (induction ds arbitrary: "values")
  case Nil
  then show ?case by simp
next
  case (Cons data rest)
  then obtain index where found: "columns (fDiffName data) = Some index"
    by auto
  from columns_numbered_index [OF assms(1) this] assms(2)
  have range: "0 \<le> index" "index < cnt" "index < 100"
    by auto
  from Cons have "\<exists>values'. csv_row_diffs sk_debug columns cnt rest
      (values[nat index := fResult data]) = Inr values'"
    by (intro Cons.IH) auto
  with found range show ?case
    by (simp add: Let_def)
qed

lemma csv_filename_cases:
  "csv_filename path = Inl ReadBeforeBuffer \<or> (\<exists>filename. csv_filename path = Inr filename)"
  by (simp add: csv_filename_def Let_def)

lemma csv_filename_loop_nonneg: "0 \<le> filename \<Longrightarrow> 0 \<le> csv_filename_loop path filename"
proof (induction path filename rule: csv_filename_loop.induct)
  case (1 path filename)
  show ?case
  proof (cases "filename > 0 \<and> path ! nat (filename - 1) \<noteq> CHR ''/''")
    case True
    then have "0 \<le> csv_filename_loop path (filename - 1)"
      by (intro "1.IH") auto
    with True show ?thesis by (subst csv_filename_loop.simps) simp
  next
    case False
    with "1.prems" show ?thesis by (subst csv_filename_loop.simps) auto
  qed
qed

lemma csv_filename_ok: "path \<noteq> [] \<Longrightarrow> \<exists>filename. csv_filename path = Inr filename"
  using csv_filename_loop_nonneg [of "int (length path) - 1" path]
  by (cases path) (auto simp: csv_filename_def Let_def)

lemma csv_rows_ok:
  assumes "columns_numbered columns cnt" and "cnt \<le> 100"
    and "(\<Union>r\<in>set records. fDiffName ` set (fDiffs r)) \<subseteq> dom columns"
  shows "csv_rows sk_debug env columns cnt records values stream \<noteq> Inl AssertionFailed
    \<and> csv_rows sk_debug env columns cnt records values stream \<noteq> Inl ArrayIndexOutOfBounds
    \<and> ((\<forall>r\<in>set records. fBaselinePath r \<noteq> [])
         \<longrightarrow> (\<exists>out. csv_rows sk_debug env columns cnt records values stream = Inr out))"
  using assms(3)
proof (induction records arbitrary: "values" stream)
  case Nil
  then show ?case by simp
next
  case (Cons currentRecord others)
  obtain values1 where init: "csv_init_values cnt 0 values = Inr values1"
    using csv_init_values_ok [of 0 cnt "values"] assms(2) by auto
  from Cons.prems have "fDiffName ` set (fDiffs currentRecord) \<subseteq> dom columns"
    by auto
  from csv_row_diffs_ok [OF assms(1,2) this]
  obtain values2 where row: "csv_row_diffs sk_debug columns cnt (fDiffs currentRecord) values1
      = Inr values2"
    by blast
  from Cons.prems have others: "(\<Union>r\<in>set others. fDiffName ` set (fDiffs r)) \<subseteq> dom columns"
    by auto
  show ?case
  proof (cases "csv_filename (fBaselinePath currentRecord)")
    case (Inl e)
    with csv_filename_cases [of "fBaselinePath currentRecord"]
    have e: "e = ReadBeforeBuffer" by auto
    have "fBaselinePath currentRecord = []"
      using csv_filename_ok [of "fBaselinePath currentRecord"] Inl by auto
    with init row Inl e show ?thesis by simp
  next
    case (Inr filename)
    obtain stream1 where print: "csv_print_values env cnt 0 values2 (stream @ filename) = Inr stream1"
      using csv_print_values_ok [of 0 cnt env values2 "stream @ filename"] assms(2) by auto
    from Cons.IH [OF others, of values2 "stream1 @ newline"] init row Inr print
    show ?thesis by simp
  qed
qed

text \<open>
  C10. When the records of the store mention fewer than 100 distinct differ names,
  \<^verbatim>\<open>outputCsv\<close> never fails an assertion (in a debug build \<^verbatim>\<open>cntColumns < 100\<close> holds,
  every name is found and its index is in \<open>[0, cntColumns)\<close>) and never uses an index
  of \<^verbatim>\<open>values\<close> outside \<open>0..99\<close> (in any build). If in addition no baseline path is
  empty, it returns, with the context unchanged.
\<close>

theorem outputCsv_in_bounds:
  assumes "card (\<Union>r\<in>set (fRecords this). fDiffName ` set (fDiffs r)) < 100"
  shows "outputCsv sk_debug env this stream \<noteq> Inl AssertionFailed
    \<and> outputCsv sk_debug env this stream \<noteq> Inl ArrayIndexOutOfBounds
    \<and> ((\<forall>r\<in>set (fRecords this). fBaselinePath r \<noteq> [])
         \<longrightarrow> (\<exists>out. outputCsv sk_debug env this stream = Inr (this, out)))"
proof -
  obtain columns cnt stream1 where
    header: "csv_header_records (fRecords this) (Map.empty, 0, stream @ ''key'')
             = (columns, cnt, stream1)"
    by (cases "csv_header_records (fRecords this) (Map.empty, 0, stream @ ''key'')") auto
  from csv_header_records_inv [OF columns_numbered_empty header]
  have inv: "columns_numbered columns cnt"
    and dom: "dom columns = (\<Union>r\<in>set (fRecords this). fDiffName ` set (fDiffs r))"
    by auto
  from inv dom assms have cnt: "cnt < 100"
    by (simp add: columns_numbered_def)
  then have le: "cnt \<le> 100" by simp
  from dom have sub: "(\<Union>r\<in>set (fRecords this). fDiffName ` set (fDiffs r)) \<subseteq> dom columns"
    by simp
  note rows = csv_rows_ok [OF inv le sub, of sk_debug env "replicate 100 0" "stream1 @ newline"]
  show ?thesis
    using header cnt rows
    by (auto simp: outputCsv_def split: sum.splits)
qed

theorem outputCsv_in_bounds_witness:
  "outputCsv True example_env
     ((example_context [] [] 1)\<lparr>fRecords :=
        [\<lparr>fCommonName = ''x.png'', fDifferencePath = [], fBaselinePath = ''base/x.png'',
          fTestPath = ''test/x.png'',
          fDiffs = [\<lparr>fDiffName = ''a'', fResult = 1, fPointsOfInterest = []\<rparr>,
                    \<lparr>fDiffName = ''b'', fResult = 0.5, fPointsOfInterest = []\<rparr>]\<rparr>,
         \<lparr>fCommonName = ''y.png'', fDifferencePath = [], fBaselinePath = ''base/y.png'',
          fTestPath = ''test/y.png'',
          fDiffs = [\<lparr>fDiffName = ''b'', fResult = 1, fPointsOfInterest = []\<rparr>]\<rparr>]\<rparr>) []
     \<noteq> Inl AssertionFailed
   \<and> (\<exists>out. outputCsv False example_env
     ((example_context [] [] 1)\<lparr>fRecords :=
        [\<lparr>fCommonName = ''x.png'', fDifferencePath = [], fBaselinePath = ''base/x.png'',
          fTestPath = ''test/x.png'',
          fDiffs = [\<lparr>fDiffName = ''a'', fResult = 1, fPointsOfInterest = []\<rparr>,
                    \<lparr>fDiffName = ''b'', fResult = 0.5, fPointsOfInterest = []\<rparr>]\<rparr>,
         \<lparr>fCommonName = ''y.png'', fDifferencePath = [], fBaselinePath = ''base/y.png'',
          fTestPath = ''test/y.png'',
          fDiffs = [\<lparr>fDiffName = ''b'', fResult = 1, fPointsOfInterest = []\<rparr>]\<rparr>]\<rparr>) []
      = Inr ((example_context [] [] 1)\<lparr>fRecords :=
        [\<lparr>fCommonName = ''x.png'', fDifferencePath = [], fBaselinePath = ''base/x.png'',
          fTestPath = ''test/x.png'',
          fDiffs = [\<lparr>fDiffName = ''a'', fResult = 1, fPointsOfInterest = []\<rparr>,
                    \<lparr>fDiffName = ''b'', fResult = 0.5, fPointsOfInterest = []\<rparr>]\<rparr>,
         \<lparr>fCommonName = ''y.png'', fDifferencePath = [], fBaselinePath = ''base/y.png'',
          fTestPath = ''test/y.png'',
          fDiffs = [\<lparr>fDiffName = ''b'', fResult = 1, fPointsOfInterest = []\<rparr>]\<rparr>]\<rparr>, out))"
proof -
  let ?store = "(example_context [] [] 1)\<lparr>fRecords :=
        [\<lparr>fCommonName = ''x.png'', fDifferencePath = [], fBaselinePath = ''base/x.png'',
          fTestPath = ''test/x.png'',
          fDiffs = [\<lparr>fDiffName = ''a'', fResult = 1, fPointsOfInterest = []\<rparr>,
                    \<lparr>fDiffName = ''b'', fResult = 0.5, fPointsOfInterest = []\<rparr>]\<rparr>,
         \<lparr>fCommonName = ''y.png'', fDifferencePath = [], fBaselinePath = ''base/y.png'',
          fTestPath = ''test/y.png'',
          fDiffs = [\<lparr>fDiffName = ''b'', fResult = 1, fPointsOfInterest = []\<rparr>]\<rparr>]\<rparr>"
  have few: "card (\<Union>r\<in>set (fRecords ?store). fDiffName ` set (fDiffs r)) < 100"
    by (simp add: example_context_def card_insert_if)
  have paths: "\<forall>r\<in>set (fRecords ?store). fBaselinePath r \<noteq> []"
    by (simp add: example_context_def)
  from outputCsv_in_bounds [OF few, of True example_env "[]"]
  have "outputCsv True example_env ?store [] \<noteq> Inl AssertionFailed"
    by (rule conjunct1)
  moreover from outputCsv_in_bounds [OF few, of False example_env "[]"] paths
  have "\<exists>out. outputCsv False example_env ?store [] = Inr (?store, out)"
    by (elim conjE impE) assumption+
  ultimately show ?thesis
    by (rule conjI)
qed

subsection \<open>Records linked by the thread pool\<close>

lemma run_schedule_append:
  "run_schedule sk_debug env (schedule1 @ schedule2) st =
     (case run_schedule sk_debug env schedule1 st of
        Inl e \<Rightarrow> Inl e
      | Inr st1 \<Rightarrow> run_schedule sk_debug env schedule2 st1)"
  by (induction schedule1 arbitrary: st) (auto split: sum.splits)

lemma in_queue_order_Suc: "in_queue_order (Suc k) = in_queue_order k @ [k, k]"
  by (simp add: in_queue_order_def)

lemma run_two_steps:
  assumes x: "x < length (runnableDiffs st)"
    and queued: "runnableDiffs st ! x = Queued b t"
    and decode: "DecodeFile env b = Some bb" "DecodeFile env t = Some tb"
    and names: "sk_debug \<longrightarrow> SkBasename env b \<noteq> [] \<and> SkBasename env t \<noteq> []"
  shows "\<exists>record evs.
     run_schedule sk_debug env [x, x] st =
       Inr (st\<lparr>fDiffContext :=
                 (fDiffContext st)\<lparr>fRecords := record # fRecords (fDiffContext st)\<rparr>,
               runnableDiffs := (runnableDiffs st)[x := Finished],
               events := events st @ evs\<rparr>)
     \<and> fBaselinePath record = b \<and> fTestPath record = t"
proof -
  let ?loop = "differ_loop env (fDifferenceDir (fDiffContext st)) bb tb 0
      (fDiffers (fDiffContext st))
      \<lparr>alphaMaskPending = False, alphaMaskCreated = False,
       newRecord = \<lparr>fCommonName = longest_common_prefix (SkBasename env b) (SkBasename env t),
                    fDifferencePath = [], fBaselinePath = b, fTestPath = t, fDiffs = []\<rparr>\<rparr>"
  let ?st1 = "st\<lparr>runnableDiffs := (runnableDiffs st)
                 [x := Loaded b t bb tb (fRecords (fDiffContext st))]\<rparr>"
  have step1: "run_step sk_debug env x st = Inr ?st1"
    using x queued decode by (simp add: run_step_def)
  have step2: "run_step sk_debug env x ?st1 =
      Inr (st\<lparr>fDiffContext :=
                 (fDiffContext st)\<lparr>fRecords := newRecord (fst ?loop) # fRecords (fDiffContext st)\<rparr>,
               runnableDiffs := (runnableDiffs st)[x := Finished],
               events := events st @ snd ?loop\<rparr>)"
    using x link_record_Inr [OF names, of "fDiffContext st" bb tb "fRecords (fDiffContext st)"]
    by (simp add: run_step_def)
  have "fBaselinePath (newRecord (fst ?loop)) = b \<and> fTestPath (newRecord (fst ?loop)) = t"
    by (simp add: differ_loop_frame)
  with step1 step2 show ?thesis
    by (intro exI [of _ "newRecord (fst ?loop)"] exI [of _ "snd ?loop"]) simp
qed

lemma finish_next:
  "k < length xs \<Longrightarrow>
   (replicate k Finished @ drop k xs)[k := Finished] = replicate (Suc k) Finished @ drop (Suc k) xs"
  by (simp add: list_update_append replicate_append_same Cons_nth_drop_Suc [symmetric])

lemma run_in_queue_order:
  assumes ok: "\<forall>(b, t)\<in>set pairs. DecodeFile env b \<noteq> None \<and> DecodeFile env t \<noteq> None
           \<and> (sk_debug \<longrightarrow> SkBasename env b \<noteq> [] \<and> SkBasename env t \<noteq> [])"
    and tasks: "runnableDiffs st = map (\<lambda>(b, t). Queued b t) pairs"
    and k: "k \<le> length pairs"
  shows "\<exists>st'. run_schedule sk_debug env (in_queue_order k) st = Inr st'
     \<and> runnableDiffs st' = replicate k Finished @ drop k (runnableDiffs st)
     \<and> map fBaselinePath (fRecords (fDiffContext st'))
         = rev (map fst (take k pairs)) @ map fBaselinePath (fRecords (fDiffContext st))
     \<and> map fTestPath (fRecords (fDiffContext st'))
         = rev (map snd (take k pairs)) @ map fTestPath (fRecords (fDiffContext st))"
  using k
proof (induction k)
  case 0
  then show ?case by (simp add: in_queue_order_def)
next
  case (Suc k)
  then have lt: "k < length pairs" by simp
  from Suc obtain st1 where
    run1: "run_schedule sk_debug env (in_queue_order k) st = Inr st1"
    and tasks1: "runnableDiffs st1 = replicate k Finished @ drop k (runnableDiffs st)"
    and base1: "map fBaselinePath (fRecords (fDiffContext st1))
         = rev (map fst (take k pairs)) @ map fBaselinePath (fRecords (fDiffContext st))"
    and test1: "map fTestPath (fRecords (fDiffContext st1))
         = rev (map snd (take k pairs)) @ map fTestPath (fRecords (fDiffContext st))"
    by auto
  obtain b t where pair: "pairs ! k = (b, t)" by (cases "pairs ! k") auto
  with lt have mem: "(b, t) \<in> set pairs" by (metis nth_mem)
  with ok obtain bb tb where decode: "DecodeFile env b = Some bb" "DecodeFile env t = Some tb"
    and names: "sk_debug \<longrightarrow> SkBasename env b \<noteq> [] \<and> SkBasename env t \<noteq> []"
    by fastforce
  have len1: "k < length (runnableDiffs st1)"
    using lt tasks tasks1 by simp
  have queued: "runnableDiffs st1 ! k = Queued b t"
    using lt tasks tasks1 pair by (simp add: nth_append)
  from run_two_steps [OF len1 queued decode names] obtain added evs where
    run2: "run_schedule sk_debug env [k, k] st1 =
       Inr (st1\<lparr>fDiffContext :=
                 (fDiffContext st1)\<lparr>fRecords := added # fRecords (fDiffContext st1)\<rparr>,
               runnableDiffs := (runnableDiffs st1)[k := Finished],
               events := events st1 @ evs\<rparr>)"
    and paths: "fBaselinePath added = b" "fTestPath added = t"
    by blast
  let ?st2 = "st1\<lparr>fDiffContext :=
                 (fDiffContext st1)\<lparr>fRecords := added # fRecords (fDiffContext st1)\<rparr>,
               runnableDiffs := (runnableDiffs st1)[k := Finished],
               events := events st1 @ evs\<rparr>"
  have "run_schedule sk_debug env (in_queue_order (Suc k)) st = Inr ?st2"
    using run1 run2 by (simp add: in_queue_order_Suc run_schedule_append del: run_schedule.simps)
  moreover have "runnableDiffs ?st2 = replicate (Suc k) Finished @ drop (Suc k) (runnableDiffs st)"
    using lt tasks tasks1 finish_next [of k "runnableDiffs st"] by simp
  moreover have "map fBaselinePath (fRecords (fDiffContext ?st2))
         = rev (map fst (take (Suc k) pairs)) @ map fBaselinePath (fRecords (fDiffContext st))"
    using lt base1 paths pair by (simp add: take_Suc_conv_app_nth)
  moreover have "map fTestPath (fRecords (fDiffContext ?st2))
         = rev (map snd (take (Suc k) pairs)) @ map fTestPath (fRecords (fDiffContext st))"
    using lt test1 paths pair by (simp add: take_Suc_conv_app_nth)
  ultimately show ?case by blast
qed

lemma directory_loop_all:
  assumes "\<forall>name\<in>set entries. sk_exists env (SkPathJoin env testPath name)
             \<and> \<not> sk_isdir env (SkPathJoin env testPath name)"
  shows "directory_loop env baselinePath testPath entries =
     (map (\<lambda>(b, t). Queued b t)
        (map (\<lambda>name. (SkPathJoin env baselinePath name, SkPathJoin env testPath name)) entries),
      map (\<lambda>name. ThreadPoolAdd (SkPathJoin env baselinePath name) (SkPathJoin env testPath name))
        entries)"
  using assms by (induction entries) (simp_all add: Let_def)

text \<open>
  When the pool has width 1 the runnables run one after the other, and
  \<^verbatim>\<open>diffDirectories\<close> over \<open>N\<close> entries that all resolve and decode (with non-empty
  base filenames in a debug build) links exactly \<open>N\<close> new records in front of the
  store, one for each pair, the last pair first.
\<close>

lemma diffDirectories_one_worker:
  assumes width: "fThreadCount this = 1"
    and listing: "get_directory env baselinePath = Some entries"
    and resolvable: "\<forall>name\<in>set entries. sk_exists env (SkPathJoin env testPath name)
             \<and> \<not> sk_isdir env (SkPathJoin env testPath name)"
    and decodable: "\<forall>name\<in>set entries.
             DecodeFile env (SkPathJoin env baselinePath name) \<noteq> None
             \<and> DecodeFile env (SkPathJoin env testPath name) \<noteq> None"
    and names: "sk_debug \<longrightarrow> (\<forall>name\<in>set entries.
             SkBasename env (SkPathJoin env baselinePath name) \<noteq> []
             \<and> SkBasename env (SkPathJoin env testPath name) \<noteq> [])"
  shows "\<exists>this' evs.
     diffDirectories sk_debug env schedule this baselinePath testPath = Inr (this', evs)
     \<and> length (fRecords this') = length (fRecords this) + length entries
     \<and> map fBaselinePath (fRecords this')
         = rev (map (SkPathJoin env baselinePath) entries) @ map fBaselinePath (fRecords this)
     \<and> map fTestPath (fRecords this')
         = rev (map (SkPathJoin env testPath) entries) @ map fTestPath (fRecords this)"
proof -
  let ?pairs = "map (\<lambda>name. (SkPathJoin env baselinePath name, SkPathJoin env testPath name))
      entries"
  let ?st = "\<lparr>fDiffContext = this, runnableDiffs = map (\<lambda>(b, t). Queued b t) ?pairs,
      events = map (\<lambda>name. ThreadPoolAdd (SkPathJoin env baselinePath name)
                     (SkPathJoin env testPath name)) entries\<rparr>"
  have ok: "\<forall>(b, t)\<in>set ?pairs. DecodeFile env b \<noteq> None \<and> DecodeFile env t \<noteq> None
           \<and> (sk_debug \<longrightarrow> SkBasename env b \<noteq> [] \<and> SkBasename env t \<noteq> [])"
    using decodable names by auto
  have "runnableDiffs ?st = map (\<lambda>(b, t). Queued b t) ?pairs"
    by simp
  from run_in_queue_order [OF ok this, of "length ?pairs"] obtain st' where
    run: "run_schedule sk_debug env (in_queue_order (length entries)) ?st = Inr st'"
    and base: "map fBaselinePath (fRecords (fDiffContext st'))
         = rev (map fst ?pairs) @ map fBaselinePath (fRecords this)"
    and test: "map fTestPath (fRecords (fDiffContext st'))
         = rev (map snd ?pairs) @ map fTestPath (fRecords this)"
    by auto
  have result: "diffDirectories sk_debug env schedule this baselinePath testPath
      = Inr (fDiffContext st', events st')"
    using width listing run directory_loop_all [OF resolvable, of baselinePath]
    by (simp add: diffDirectories_def threadPool_wait_def)
  have base': "map fBaselinePath (fRecords (fDiffContext st'))
         = rev (map (SkPathJoin env baselinePath) entries) @ map fBaselinePath (fRecords this)"
    using base by (simp add: comp_def)
  have test': "map fTestPath (fRecords (fDiffContext st'))
         = rev (map (SkPathJoin env testPath) entries) @ map fTestPath (fRecords this)"
    using test by (simp add: comp_def)
  have "length (map fBaselinePath (fRecords (fDiffContext st')))
      = length (rev (map (SkPathJoin env baselinePath) entries) @ map fBaselinePath (fRecords this))"
    by (simp only: base')
  then have "length (fRecords (fDiffContext st')) = length (fRecords this) + length entries"
    by simp
  with result base' test' show ?thesis
    by blast
qed

lemmas pool_defs = diffDirectories_def threadPool_wait_def in_queue_order_def run_step_def
  link_record_def get_common_prefix_def prefix_loop.simps differ_step_def Let_def
  example_env_def example_context_def example_differ_def

lemma diffDirectories_one_worker_example:
  "\<exists>this' evs.
     diffDirectories True example_env [0, 1]
        (example_context [example_differ ''a'' False 0 1 []] [] 1) ''base'' ''test''
       = Inr (this', evs)
     \<and> length (fRecords this') = 2
     \<and> map fBaselinePath (fRecords this') = [''base/y.png'', ''base/x.png'']"
proof -
  let ?store = "example_context [example_differ ''a'' False 0 1 []] [] 1"
  have width: "fThreadCount ?store = 1"
    by (simp add: example_context_def)
  have listing: "get_directory example_env ''base'' = Some [''x.png'', ''y.png'']"
    by (simp add: example_env_def)
  have resolvable: "\<forall>name\<in>set [''x.png'', ''y.png''].
      sk_exists example_env (SkPathJoin example_env ''test'' name)
      \<and> \<not> sk_isdir example_env (SkPathJoin example_env ''test'' name)"
    by (simp add: example_env_def)
  have decodable: "\<forall>name\<in>set [''x.png'', ''y.png''].
      DecodeFile example_env (SkPathJoin example_env ''base'' name) \<noteq> None
      \<and> DecodeFile example_env (SkPathJoin example_env ''test'' name) \<noteq> None"
    by (simp add: example_env_def)
  have names: "True \<longrightarrow> (\<forall>name\<in>set [''x.png'', ''y.png''].
      SkBasename example_env (SkPathJoin example_env ''base'' name) \<noteq> []
      \<and> SkBasename example_env (SkPathJoin example_env ''test'' name) \<noteq> [])"
    by (simp add: example_env_def)
  have join: "map (SkPathJoin example_env ''base'') [''x.png'', ''y.png'']
      = [''base/x.png'', ''base/y.png'']"
    by (simp add: example_env_def)
  have empty: "fRecords ?store = []"
    by (simp add: example_context_def)
  from diffDirectories_one_worker [OF width listing resolvable decodable names, where schedule = "[0, 1]"]
  show ?thesis
    unfolding join empty by auto
qed

text \<open>
  C3. The claim fails on the code: \<^verbatim>\<open>addDiff\<close> links its record with no critical
  section. The directory has two entries that resolve and decode and the pool has
  width 2. When the two workers both run \<^verbatim>\<open>newRecord->fNext = fRecords\<close> before
  either runs \<^verbatim>\<open>fRecords = newRecord\<close> (the schedule \<open>[0, 1]\<close>), both runnables were
  added to the pool and both comparisons ran, but the store ends with one record: the
  record of \<open>x.png\<close> is no longer reachable from \<^verbatim>\<open>fRecords\<close>. When the same two
  workers do not interleave (the schedule \<open>[0, 0, 1, 1]\<close>) the store ends with both.
\<close>

theorem diffDirectories_loses_record:
  "get_directory example_env ''base'' = Some [''x.png'', ''y.png'']
   \<and> (\<exists>this' evs.
        diffDirectories True example_env [0, 1]
          (example_context [example_differ ''a'' False 0 1 []] [] 2) ''base'' ''test''
          = Inr (this', evs)
        \<and> ThreadPoolAdd ''base/x.png'' ''test/x.png'' \<in> set evs
        \<and> ThreadPoolAdd ''base/y.png'' ''test/y.png'' \<in> set evs
        \<and> length (filter (\<lambda>e. e = DifferCall 0 (QueueDiff 0)) evs) = 2
        \<and> map fBaselinePath (fRecords this') = [''base/y.png'']
        \<and> length (fRecords this') = 1)
   \<and> (\<exists>this' evs.
        diffDirectories True example_env [0, 0, 1, 1]
          (example_context [example_differ ''a'' False 0 1 []] [] 2) ''base'' ''test''
          = Inr (this', evs)
        \<and> map fBaselinePath (fRecords this') = [''base/y.png'', ''base/x.png'']
        \<and> length (fRecords this') = 2)"
  by (simp add: pool_defs)

end
